theory Spec2Isabelle
  imports Complex_Main
begin

section \<open>Retro Snake (main.py): the game state machine and the ghosting buffer\<close>

text \<open>
  The development embeds the game logic of \<^verbatim>\<open>SnakeGamePygame\<close>: the
  session state, \<^verbatim>\<open>start_game\<close>, \<^verbatim>\<open>new_food\<close>, \<^verbatim>\<open>move\<close>,
  \<^verbatim>\<open>check_food\<close>, \<^verbatim>\<open>check_collisions\<close>, the event dispatch of \<^verbatim>\<open>run\<close>
  and the ghosting part of \<^verbatim>\<open>draw\<close>. Mutation of \<^verbatim>\<open>self\<close> is explicit
  state passing. A Python exception is a value \<open>Inl e\<close>; a call that never returns
  (the \<^verbatim>\<open>while True\<close> of \<^verbatim>\<open>new_food\<close>) is \<open>None\<close>.
\<close>

subsection \<open>Class constants\<close>

definition SCREEN_WIDTH :: int where "SCREEN_WIDTH = 800"
definition SCREEN_HEIGHT :: int where "SCREEN_HEIGHT = 600"
definition UNIT_SIZE :: int where "UNIT_SIZE = 20"
definition DELAY_MS :: int where "DELAY_MS = 100"
definition BORDER_SIZE :: int where "BORDER_SIZE = 20"
definition STYLE_CHANGE_SCORE_INTERVAL :: int where "STYLE_CHANGE_SCORE_INTERVAL = 5"
definition max_ghosting_frames :: int where "max_ghosting_frames = 5"

subsection \<open>pygame.Rect\<close>

text \<open>
  A \<^verbatim>\<open>pygame.Rect\<close> holds integer \<open>x, y, w, h\<close>. The attributes
  \<^verbatim>\<open>left, right, top, bottom\<close> and the methods \<^verbatim>\<open>move\<close> and
  \<^verbatim>\<open>colliderect\<close> follow pygame: two rectangles collide when their interiors
  intersect, a rectangle of width or height zero collides with nothing, touching
  edges do not collide, and a negative width or height spans to the other side.
\<close>

record rect =
  rect_x :: int
  rect_y :: int
  rect_w :: int
  rect_h :: int

definition Rect :: "int \<Rightarrow> int \<Rightarrow> int \<Rightarrow> int \<Rightarrow> rect" where
  "Rect a b c d = \<lparr>rect_x = a, rect_y = b, rect_w = c, rect_h = d\<rparr>"

definition rect_left :: "rect \<Rightarrow> int" where "rect_left r = rect_x r"
definition rect_right :: "rect \<Rightarrow> int" where "rect_right r = rect_x r + rect_w r"
definition rect_top :: "rect \<Rightarrow> int" where "rect_top r = rect_y r"
definition rect_bottom :: "rect \<Rightarrow> int" where "rect_bottom r = rect_y r + rect_h r"

definition rect_move :: "rect \<Rightarrow> int \<Rightarrow> int \<Rightarrow> rect" where
  "rect_move r dx dy = Rect (rect_x r + dx) (rect_y r + dy) (rect_w r) (rect_h r)"

definition colliderect :: "rect \<Rightarrow> rect \<Rightarrow> bool" where
  "colliderect a b =
     (if rect_w a = 0 \<or> rect_h a = 0 \<or> rect_w b = 0 \<or> rect_h b = 0 then False
      else min (rect_x a) (rect_x a + rect_w a) < max (rect_x b) (rect_x b + rect_w b)
         \<and> min (rect_y a) (rect_y a + rect_h a) < max (rect_y b) (rect_y b + rect_h b)
         \<and> max (rect_x a) (rect_x a + rect_w a) > min (rect_x b) (rect_x b + rect_w b)
         \<and> max (rect_y a) (rect_y a + rect_h a) > min (rect_y b) (rect_y b + rect_h b))"

subsection \<open>The random generator\<close>

text \<open>
  \<^verbatim>\<open>random.Random()\<close> is an infinite sequence of raw draws and a cursor
  into it. \<^verbatim>\<open>randint(a, b)\<close> consumes one draw and returns an integer of the closed
  range \<open>[a, b]\<close>; \<^verbatim>\<open>random()\<close> consumes one draw.
\<close>

record rng =
  draws :: "nat \<Rightarrow> nat"
  cursor :: nat

definition randint :: "int \<Rightarrow> int \<Rightarrow> rng \<Rightarrow> int \<times> rng" where
  "randint a b r = (a + int (draws r (cursor r)) mod (b - a + 1), r\<lparr>cursor := cursor r + 1\<rparr>)"

definition skip_draws :: "nat \<Rightarrow> rng \<Rightarrow> rng" where
  "skip_draws n r = r\<lparr>cursor := cursor r + n\<rparr>"

subsection \<open>CRT styles\<close>

type_synonym color = "nat \<times> nat \<times> nat"

record CrtStyle =
  scanline_alpha :: real
  ghosting_alpha :: int
  snake_head_color :: color
  snake_body_color :: color
  background_color :: color
  scanline_color :: color
  grid_color :: color
  bezel_color :: color
  border_color :: color
  inner_glow_color :: color
  font_color :: color
  food_color :: color
  food_glow_color :: color
  game_over_color :: color
  font_name :: string
  font_size :: nat
  restart_text_color :: color
  pixel_noise_density :: real
  pixel_noise_alpha :: real
  horizontal_banding_alpha :: real
  horizontal_banding_thickness :: int

definition style_green :: CrtStyle where
  "style_green = \<lparr>scanline_alpha = 50, ghosting_alpha = 20,
     snake_head_color = (0, 255, 0), snake_body_color = (0, 180, 0),
     background_color = (8, 12, 8), scanline_color = (0, 0, 0),
     grid_color = (0, 40, 0), bezel_color = (20, 20, 20),
     border_color = (60, 60, 60), inner_glow_color = (0, 100, 0),
     font_color = (0, 255, 0), food_color = (255, 50, 50),
     food_glow_color = (255, 100, 100), game_over_color = (255, 0, 0),
     font_name = ''Courier New'', font_size = 16,
     restart_text_color = (255, 255, 0),
     pixel_noise_density = 0, pixel_noise_alpha = 0,
     horizontal_banding_alpha = 0, horizontal_banding_thickness = 0\<rparr>"

definition style_amber :: CrtStyle where
  "style_amber = \<lparr>scanline_alpha = 40, ghosting_alpha = 30,
     snake_head_color = (255, 200, 0), snake_body_color = (180, 120, 0),
     background_color = (20, 10, 0), scanline_color = (0, 0, 0),
     grid_color = (50, 20, 0), bezel_color = (30, 20, 10),
     border_color = (80, 50, 20), inner_glow_color = (200, 100, 0),
     font_color = (255, 200, 0), food_color = (255, 255, 0),
     food_glow_color = (255, 255, 100), game_over_color = (255, 80, 0),
     font_name = ''Courier New'', font_size = 16,
     restart_text_color = (255, 220, 0),
     pixel_noise_density = 0, pixel_noise_alpha = 0,
     horizontal_banding_alpha = 50, horizontal_banding_thickness = 2\<rparr>"

definition style_blue :: CrtStyle where
  "style_blue = \<lparr>scanline_alpha = 80, ghosting_alpha = 15,
     snake_head_color = (100, 100, 255), snake_body_color = (50, 50, 180),
     background_color = (0, 0, 50), scanline_color = (0, 0, 0),
     grid_color = (0, 0, 100), bezel_color = (10, 10, 30),
     border_color = (40, 40, 90), inner_glow_color = (0, 0, 200),
     font_color = (100, 100, 255), food_color = (255, 0, 255),
     food_glow_color = (255, 100, 255), game_over_color = (255, 50, 50),
     font_name = ''Courier New'', font_size = 16,
     restart_text_color = (200, 200, 255),
     pixel_noise_density = 5 / 1000, pixel_noise_alpha = 50,
     horizontal_banding_alpha = 0, horizontal_banding_thickness = 0\<rparr>"

text \<open>\<^verbatim>\<open>_initialize_crt_styles\<close>: the list is filled once, in the constructor, and
  never changed afterwards.\<close>

definition crt_styles :: "CrtStyle list" where
  "crt_styles = [style_green, style_amber, style_blue]"

subsection \<open>The session state\<close>

text \<open>
  A surface is its pixel content, of an arbitrary type \<open>'p\<close>, and the alpha value
  \<^verbatim>\<open>set_alpha\<close> last stored in it, an integer from 0 to 255 (\<open>None\<close> for a
  surface that never got one: it is drawn opaque). \<open>update_timer\<close> is the interval of the \<^verbatim>\<open>GAME_UPDATE\<close> timer in
  milliseconds, 0 when the timer is stopped.
\<close>

record 'p surface =
  pixels :: 'p
  surf_alpha :: "int option"

record 'p game =
  random_gen :: rng
  snake :: "rect list"
  food :: "rect option"
  direction :: string
  running :: bool
  score :: int
  high_score :: int
  game_start_time :: real
  ghosting_frames :: "'p surface list"
  current_style_index :: int
  current_style :: CrtStyle
  update_timer :: int

datatype py_error = IndexError | TypeError

type_synonym 'a result = "(py_error + 'a) option"

definition and_then :: "'a result \<Rightarrow> ('a \<Rightarrow> 'b result) \<Rightarrow> 'b result" where
  "and_then m f = (case m of None \<Rightarrow> None | Some (Inl e) \<Rightarrow> Some (Inl e) | Some (Inr v) \<Rightarrow> f v)"

text \<open>The constructor, up to its call of \<^verbatim>\<open>start_game\<close>.\<close>

definition init_fields :: "rng \<Rightarrow> 'p game" where
  "init_fields r = \<lparr>random_gen = r, snake = [], food = None, direction = ''R'',
     running = False, score = 0, high_score = 0, game_start_time = 0,
     ghosting_frames = [], current_style_index = 0,
     current_style = crt_styles ! 0, update_timer = 0\<rparr>"

subsection \<open>new_food\<close>

text \<open>One pass through the body of the \<^verbatim>\<open>while True\<close> loop, up to the test.\<close>

definition place_food :: "int \<Rightarrow> int \<Rightarrow> int \<Rightarrow> int \<Rightarrow> 'p game \<Rightarrow> 'p game" where
  "place_food min_x max_x min_y max_y g =
     (let (cx, r1) = randint min_x max_x (random_gen g);
          food_x = cx * UNIT_SIZE;
          (cy, r2) = randint min_y max_y r1;
          food_y = cy * UNIT_SIZE
      in g\<lparr>random_gen := r2, food := Some (Rect food_x food_y UNIT_SIZE UNIT_SIZE)\<rparr>)"

text \<open>The test \<^verbatim>\<open>any(segment.colliderect(self.food) for segment in self.snake)\<close>;
  the loop reads it only after it has assigned the food.\<close>

definition food_on_snake :: "'p game \<Rightarrow> bool" where
  "food_on_snake g =
     (case food g of None \<Rightarrow> False
      | Some f \<Rightarrow> list_ex (\<lambda>segment. colliderect segment f) (snake g))"

partial_function (option) new_food_loop ::
  "int \<Rightarrow> int \<Rightarrow> int \<Rightarrow> int \<Rightarrow> 'p game \<Rightarrow> 'p game option" where
  "new_food_loop min_x max_x min_y max_y g =
     (let g' = place_food min_x max_x min_y max_y g
      in if \<not> food_on_snake g' then Some g'
         else new_food_loop min_x max_x min_y max_y g')"

definition new_food :: "'p game \<Rightarrow> 'p game option" where
  "new_food g =
     (let min_x = BORDER_SIZE div UNIT_SIZE;
          max_x = (SCREEN_WIDTH - BORDER_SIZE - UNIT_SIZE) div UNIT_SIZE;
          min_y = BORDER_SIZE div UNIT_SIZE;
          max_y = (SCREEN_HEIGHT - BORDER_SIZE - UNIT_SIZE) div UNIT_SIZE
      in new_food_loop min_x max_x min_y max_y g)"

subsection \<open>start_game\<close>

text \<open>The first argument is the value \<^verbatim>\<open>time.time()\<close> returns when it is called.\<close>

definition start_snake :: "rect list" where
  "start_snake =
     (let start_x = SCREEN_WIDTH div 2;
          start_y = SCREEN_HEIGHT div 2;
          start_x = ((start_x - BORDER_SIZE) div UNIT_SIZE) * UNIT_SIZE + BORDER_SIZE;
          start_y = ((start_y - BORDER_SIZE) div UNIT_SIZE) * UNIT_SIZE + BORDER_SIZE
      in [Rect start_x start_y UNIT_SIZE UNIT_SIZE,
          Rect (start_x - UNIT_SIZE) start_y UNIT_SIZE UNIT_SIZE,
          Rect (start_x - UNIT_SIZE * 2) start_y UNIT_SIZE UNIT_SIZE])"

definition start_game :: "real \<Rightarrow> 'p game \<Rightarrow> 'p game option" where
  "start_game now g =
     (let g1 = g\<lparr>snake := start_snake, direction := ''R'', score := 0,
                 current_style_index := 0, current_style := crt_styles ! 0\<rparr>
      in case new_food g1 of None \<Rightarrow> None
         | Some g2 \<Rightarrow>
             Some (g2\<lparr>running := True, game_start_time := now,
                      ghosting_frames := [], update_timer := DELAY_MS\<rparr>))"

subsection \<open>move, check_food, check_collisions\<close>

definition new_head_pos :: "string \<Rightarrow> rect \<Rightarrow> rect" where
  "new_head_pos d head =
     (if d = ''U'' then rect_move head 0 (- UNIT_SIZE)
      else if d = ''D'' then rect_move head 0 UNIT_SIZE
      else if d = ''L'' then rect_move head (- UNIT_SIZE) 0
      else if d = ''R'' then rect_move head UNIT_SIZE 0
      else head)"

definition move :: "'p game \<Rightarrow> py_error + 'p game" where
  "move g =
     (case snake g of [] \<Rightarrow> Inl IndexError
      | head # _ \<Rightarrow>
          (let nh = new_head_pos (direction g) head;
               g1 = g\<lparr>snake := nh # snake g\<rparr>
           in case food g of None \<Rightarrow> Inl TypeError
              | Some f \<Rightarrow>
                  if \<not> colliderect nh f then Inr (g1\<lparr>snake := butlast (snake g1)\<rparr>)
                  else Inr g1))"

text \<open>Lines 231 to 237: the score, the high score and the style change.\<close>

definition score_point :: "'p game \<Rightarrow> 'p game" where
  "score_point g =
     (let g1 = g\<lparr>score := score g + 1\<rparr>;
          g2 = g1\<lparr>high_score := max (high_score g1) (score g1)\<rparr>
      in if score g2 > 0 \<and> score g2 mod STYLE_CHANGE_SCORE_INTERVAL = 0
         then (let i = (current_style_index g2 + 1) mod int (length crt_styles)
               in g2\<lparr>current_style_index := i, current_style := crt_styles ! nat i\<rparr>)
         else g2)"

definition check_food :: "'p game \<Rightarrow> 'p game result" where
  "check_food g =
     (case snake g of [] \<Rightarrow> Some (Inl IndexError)
      | head # _ \<Rightarrow>
          (case food g of None \<Rightarrow> Some (Inl TypeError)
           | Some f \<Rightarrow>
               if colliderect head f then map_option Inr (new_food (score_point g))
               else Some (Inr g)))"

text \<open>The two tests of \<^verbatim>\<open>check_collisions\<close>: the walls, then the body.\<close>

definition wall_collision :: "rect \<Rightarrow> bool" where
  "wall_collision head =
     (rect_left head < BORDER_SIZE
      \<or> rect_right head > SCREEN_WIDTH - BORDER_SIZE
      \<or> rect_top head < BORDER_SIZE
      \<or> rect_bottom head > SCREEN_HEIGHT - BORDER_SIZE)"

definition self_collision :: "rect \<Rightarrow> rect list \<Rightarrow> bool" where
  "self_collision head body = list_ex (\<lambda>segment. colliderect head segment) body"

definition check_collisions :: "'p game \<Rightarrow> py_error + 'p game" where
  "check_collisions g =
     (case snake g of [] \<Rightarrow> Inl IndexError
      | head # body \<Rightarrow>
          (let g1 = (if wall_collision head then g\<lparr>running := False\<rparr> else g);
               g2 = (if self_collision head body then g1\<lparr>running := False\<rparr> else g1)
           in Inr (if \<not> running g2 then g2\<lparr>update_timer := 0\<rparr> else g2)))"

subsection \<open>The event loop of run\<close>

datatype key = K_LEFT | K_RIGHT | K_UP | K_DOWN | K_SPACE | K_OTHER

datatype event = QUIT | KEYDOWN key | GAME_UPDATE | OTHER_EVENT

text \<open>The body of the \<^verbatim>\<open>GAME_UPDATE\<close> branch: one tick.\<close>

definition game_update :: "'p game \<Rightarrow> 'p game result" where
  "game_update g =
     (if running g then
        and_then (Some (move g)) (\<lambda>g1.
        and_then (check_food g1) (\<lambda>g2.
        Some (check_collisions g2)))
      else Some (Inr g))"

text \<open>
  One event of the \<^verbatim>\<open>for event in pygame.event.get()\<close> loop. The state is the
  local flag \<^verbatim>\<open>running_game\<close> and the session; \<open>now\<close> is the clock reading a
  restart would take.
\<close>

fun handle_event :: "real \<Rightarrow> bool \<times> 'p game \<Rightarrow> event \<Rightarrow> (bool \<times> 'p game) result" where
  "handle_event now (rg, g) QUIT = Some (Inr (False, g))"
| "handle_event now (rg, g) (KEYDOWN K_LEFT) =
     Some (Inr (rg, if direction g \<noteq> ''R'' then g\<lparr>direction := ''L''\<rparr> else g))"
| "handle_event now (rg, g) (KEYDOWN K_RIGHT) =
     Some (Inr (rg, if direction g \<noteq> ''L'' then g\<lparr>direction := ''R''\<rparr> else g))"
| "handle_event now (rg, g) (KEYDOWN K_UP) =
     Some (Inr (rg, if direction g \<noteq> ''D'' then g\<lparr>direction := ''U''\<rparr> else g))"
| "handle_event now (rg, g) (KEYDOWN K_DOWN) =
     Some (Inr (rg, if direction g \<noteq> ''U'' then g\<lparr>direction := ''D''\<rparr> else g))"
| "handle_event now (rg, g) (KEYDOWN K_SPACE) =
     (if \<not> running g then map_option (\<lambda>g'. Inr (rg, g')) (start_game now g)
      else Some (Inr (rg, g)))"
| "handle_event now (rg, g) (KEYDOWN K_OTHER) = Some (Inr (rg, g))"
| "handle_event now (rg, g) GAME_UPDATE =
     and_then (game_update g) (\<lambda>g'. Some (Inr (rg, g')))"
| "handle_event now (rg, g) OTHER_EVENT = Some (Inr (rg, g))"

subsection \<open>The ghosting part of draw\<close>

text \<open>
  \<^verbatim>\<open>_draw_background_artifacts\<close> calls \<^verbatim>\<open>random.random()\<close> once for every
  candidate band and once for every candidate noise block; the draws decide pixels
  only, so the model keeps their number.
\<close>

definition py_range_len :: "int \<Rightarrow> int \<Rightarrow> int \<Rightarrow> nat" where
  "py_range_len start stop step = nat ((stop - start + step - 1) div step)"

definition artifact_draws :: "CrtStyle \<Rightarrow> nat" where
  "artifact_draws st =
     (if horizontal_banding_alpha st > 0 \<and> horizontal_banding_thickness st > 0
      then py_range_len BORDER_SIZE (SCREEN_HEIGHT - BORDER_SIZE) (UNIT_SIZE div 2) else 0)
     + (if pixel_noise_density st > 0 \<and> pixel_noise_alpha st > 0
        then py_range_len BORDER_SIZE (SCREEN_WIDTH - BORDER_SIZE) (UNIT_SIZE div 2)
             * py_range_len BORDER_SIZE (SCREEN_HEIGHT - BORDER_SIZE) (UNIT_SIZE div 2)
        else 0)"

text \<open>
  Python's \<^verbatim>\<open>float\<close> is IEEE 754 binary64. A finite value is a pair \<open>(m, e)\<close> that
  stands for \<open>m * 2 ^ e\<close>; every operation gives the exact result rounded to the
  nearest value with a 53 bit significand, ties to the even one, with gradual underflow
  (no bit below \<open>2 ^ - 1074\<close>). Overflow, infinities and NaN do not arise for the
  magnitudes of this program and are left out.
\<close>

type_synonym float64 = "int \<times> int"

text \<open>\<^verbatim>\<open>int.bit_length()\<close>, for a number that is not negative.\<close>

function bit_length :: "int \<Rightarrow> nat" where
  "bit_length n = (if n \<le> 0 then 0 else Suc (bit_length (n div 2)))"
  by pat_completeness auto
termination
  by (relation "measure nat") auto

definition float_round :: "int \<Rightarrow> int \<Rightarrow> float64" where
  "float_round m e =
     (let s = max (int (bit_length \<bar>m\<bar>) - 53) (- 1074 - e)
      in if s \<le> 0 then (m, e)
         else (let q = \<bar>m\<bar> div 2 ^ nat s;
                   r = \<bar>m\<bar> mod 2 ^ nat s;
                   half = 2 ^ nat (s - 1);
                   q' = (if r > half \<or> (r = half \<and> odd q) then q + 1 else q)
               in (sgn m * q', e + s)))"

text \<open>The conversion of an \<^verbatim>\<open>int\<close> operand, the product and the difference of two
  floats.\<close>

definition float_of_int :: "int \<Rightarrow> float64" where
  "float_of_int k = float_round k 0"

definition float_mul :: "float64 \<Rightarrow> float64 \<Rightarrow> float64" where
  "float_mul a b = float_round (fst a * fst b) (snd a + snd b)"

definition float_sub :: "float64 \<Rightarrow> float64 \<Rightarrow> float64" where
  "float_sub a b =
     (let e = min (snd a) (snd b)
      in float_round (fst a * 2 ^ nat (snd a - e) - fst b * 2 ^ nat (snd b - e)) e)"

text \<open>
  \<^verbatim>\<open>i / n\<close> on two \<^verbatim>\<open>int\<close>s, for \<open>n\<close> other than 0: the quotient, correctly
  rounded. The quotient is taken to more than 55 bits; a last bit records whether a
  remainder is left, which is all the rounding has to know of the rest.
\<close>

definition int_true_div :: "int \<Rightarrow> int \<Rightarrow> float64" where
  "int_true_div i n =
     (let k = bit_length \<bar>n\<bar> + 55;
          num = \<bar>i\<bar> * 2 ^ k;
          q = num div \<bar>n\<bar>;
          sticky = (if num mod \<bar>n\<bar> = 0 then 0 else 1)
      in float_round (sgn i * sgn n * (2 * q + sticky)) (- int k - 1))"

text \<open>\<^verbatim>\<open>int(x)\<close> of a float: the fraction is cut off, towards zero.\<close>

definition float_trunc :: "float64 \<Rightarrow> int" where
  "float_trunc a =
     (if snd a \<ge> 0 then fst a * 2 ^ nat (snd a)
      else sgn (fst a) * (\<bar>fst a\<bar> div 2 ^ nat (- snd a)))"

text \<open>
  Line 286: \<^verbatim>\<open>ghosting_alpha * (1 - (i / len(self.ghosting_frames)))\<close>, with the
  \<^verbatim>\<open>int\<close>s \<open>ghosting_alpha\<close>, \<open>i\<close> and the length. The loop runs only over a
  list that is not empty, so the divisor is not 0.
\<close>

definition ghost_alpha :: "int \<Rightarrow> int \<Rightarrow> int \<Rightarrow> float64" where
  "ghost_alpha ga i n =
     float_mul (float_of_int ga) (float_sub (float_of_int 1) (int_true_div i n))"

text \<open>
  pygame's \<^verbatim>\<open>Surface.set_alpha(value)\<close>: the value is converted to an integer as
  \<^verbatim>\<open>int(value)\<close> does and clamped to the range from 0 to 255.
\<close>

definition set_alpha :: "float64 \<Rightarrow> 'p surface \<Rightarrow> 'p surface" where
  "set_alpha v s =
     (let alphaval = float_trunc v
      in s\<lparr>surf_alpha :=
             Some (if alphaval > 255 then 255 else if alphaval < 0 then 0 else alphaval)\<rparr>)"

text \<open>The loop over \<^verbatim>\<open>enumerate(self.ghosting_frames)\<close>.\<close>

definition set_alphas :: "int \<Rightarrow> 'p surface list \<Rightarrow> 'p surface list" where
  "set_alphas ga fs =
     map (\<lambda>(i, ghost_frame).
            set_alpha (ghost_alpha ga (int i) (int (length fs))) ghost_frame)
         (enumerate 0 fs)"

text \<open>
  \<open>draw composed g\<close>: \<open>composed\<close> is the content of the frame the passes before the
  ghosting pass have painted on a fresh surface. The result is the new session and the
  surfaces blitted on the cleared screen, in the order of the blits.
\<close>

definition draw :: "'p \<Rightarrow> 'p game \<Rightarrow> 'p game \<times> 'p surface list" where
  "draw composed g =
     (let frame_surface = \<lparr>pixels = composed, surf_alpha = None\<rparr>;
          g0 = g\<lparr>random_gen := skip_draws (artifact_draws (current_style g)) (random_gen g)\<rparr>;
          g1 = g0\<lparr>ghosting_frames := ghosting_frames g0 @ [frame_surface]\<rparr>;
          g2 = (if int (length (ghosting_frames g1)) > max_ghosting_frames
                then g1\<lparr>ghosting_frames := tl (ghosting_frames g1)\<rparr> else g1);
          g3 = g2\<lparr>ghosting_frames :=
                      set_alphas (ghosting_alpha (current_style g2)) (ghosting_frames g2)\<rparr>
      in (g3, ghosting_frames g3 @ [frame_surface]))"

subsection \<open>Reachable sessions\<close>

text \<open>
  A session is reachable when the constructor returns it, or an event or a frame of
  \<^verbatim>\<open>run\<close> leads to it from a reachable session.
\<close>

inductive reachable :: "'p game \<Rightarrow> bool" where
  reachable_init: "start_game now (init_fields r) = Some g \<Longrightarrow> reachable g"
| reachable_event:
    "reachable g \<Longrightarrow> handle_event now (rg, g) e = Some (Inr (rg', g')) \<Longrightarrow> reachable g'"
| reachable_draw: "reachable g \<Longrightarrow> reachable (fst (draw composed g))"

subsection \<open>Notions used in the statements\<close>

text \<open>A unit square on the grid, inside the playable area.\<close>

definition grid_cell :: "rect \<Rightarrow> bool" where
  "grid_cell f =
     (rect_w f = UNIT_SIZE \<and> rect_h f = UNIT_SIZE
      \<and> rect_x f mod UNIT_SIZE = 0 \<and> rect_y f mod UNIT_SIZE = 0
      \<and> \<not> wall_collision f)"

text \<open>A unit square at the cell \<open>(cx, cy)\<close>, with \<open>cx\<close> in \<open>[a, b]\<close> and \<open>cy\<close> in
  \<open>[c, d]\<close>: what one pass of the loop of \<^verbatim>\<open>new_food\<close> assigns.\<close>

definition food_cell_ok :: "int \<Rightarrow> int \<Rightarrow> int \<Rightarrow> int \<Rightarrow> rect \<Rightarrow> bool" where
  "food_cell_ok a b c d f =
     (\<exists>cx cy. f = Rect (cx * UNIT_SIZE) (cy * UNIT_SIZE) UNIT_SIZE UNIT_SIZE
        \<and> a \<le> cx \<and> cx \<le> b \<and> c \<le> cy \<and> cy \<le> d)"

text \<open>The session after \<open>k\<close> passes through the loop body of \<^verbatim>\<open>new_food\<close>.\<close>

definition food_attempts :: "nat \<Rightarrow> 'p game \<Rightarrow> 'p game" where
  "food_attempts k g =
     (place_food (BORDER_SIZE div UNIT_SIZE)
                 ((SCREEN_WIDTH - BORDER_SIZE - UNIT_SIZE) div UNIT_SIZE)
                 (BORDER_SIZE div UNIT_SIZE)
                 ((SCREEN_HEIGHT - BORDER_SIZE - UNIT_SIZE) div UNIT_SIZE) ^^ k) g"

text \<open>A unit square at multiples of the unit.\<close>

definition unit_aligned :: "rect \<Rightarrow> bool" where
  "unit_aligned s =
     (rect_w s = UNIT_SIZE \<and> rect_h s = UNIT_SIZE
      \<and> rect_x s mod UNIT_SIZE = 0 \<and> rect_y s mod UNIT_SIZE = 0)"

text \<open>A well-formed board: every segment is a unit square on the grid, the food is a
  grid cell of the playable area, and it lies on no segment.\<close>

definition board_inv :: "'p game \<Rightarrow> bool" where
  "board_inv g =
     (list_all unit_aligned (snake g)
      \<and> (case food g of None \<Rightarrow> False | Some f \<Rightarrow> grid_cell f)
      \<and> \<not> food_on_snake g)"

text \<open>What holds of every reachable session.\<close>

definition session_inv :: "'p game \<Rightarrow> bool" where
  "session_inv g =
     (int (length (snake g)) = score g + 3 \<and> 0 \<le> score g \<and> score g \<le> high_score g
      \<and> current_style_index g = (score g div 5) mod 3
      \<and> current_style g = crt_styles ! nat (current_style_index g)
      \<and> length (ghosting_frames g) \<le> 5)"

subsection \<open>Concrete sessions\<close>

text \<open>A generator whose first two draws put the food right ahead of the fresh snake.\<close>

definition demo_rng :: rng where
  "demo_rng = \<lparr>draws = (\<lambda>n. 20 + 22 * n), cursor = 0\<rparr>"

definition demo_start :: "unit game" where
  "demo_start = (init_fields demo_rng)\<lparr>random_gen := skip_draws 2 demo_rng,
     snake := start_snake, food := Some (Rect 420 300 20 20), running := True,
     update_timer := 100\<rparr>"

definition demo_fed :: "unit game" where
  "demo_fed = demo_start\<lparr>random_gen := skip_draws 4 demo_rng,
     snake := Rect 420 300 20 20 # start_snake, food := Some (Rect 540 60 20 20),
     score := 1, high_score := 1\<rparr>"

definition demo_four :: "unit game" where
  "demo_four = demo_start\<lparr>snake := start_snake @
       [Rect 340 300 20 20, Rect 320 300 20 20, Rect 300 300 20 20, Rect 280 300 20 20],
     score := 4, high_score := 4\<rparr>"

definition demo_five :: "unit game" where
  "demo_five = demo_four\<lparr>random_gen := skip_draws 4 demo_rng,
     snake := Rect 420 300 20 20 # snake demo_four, food := Some (Rect 540 60 20 20),
     score := 5, high_score := 5, current_style_index := 1, current_style := style_amber\<rparr>"

text \<open>The fresh snake turns up, then left, and runs along the row \<open>y = 280\<close> to the
  left wall: \<open>left_row k\<close> is the session with the head \<open>k\<close> cells further left.\<close>

definition left_row :: "nat \<Rightarrow> unit game" where
  "left_row k = demo_start\<lparr>snake := [Rect (360 - 20 * int k) 280 20 20,
       Rect (380 - 20 * int k) 280 20 20, Rect (400 - 20 * int k) 280 20 20],
     direction := ''L''\<rparr>"

definition demo_wall :: "unit game" where
  "demo_wall = demo_start\<lparr>snake := [Rect 20 280 20 20, Rect 40 280 20 20, Rect 60 280 20 20],
     direction := ''L''\<rparr>"

definition demo_over :: "unit game" where
  "demo_over = demo_wall\<lparr>snake := [Rect 0 280 20 20, Rect 20 280 20 20, Rect 40 280 20 20],
     running := False, update_timer := 0\<rparr>"

text \<open>A session that ended at the left wall with 7 points, and its restart at time 5.\<close>

definition demo_over7 :: "unit game" where
  "demo_over7 = demo_over\<lparr>random_gen := skip_draws 16 demo_rng,
     snake := [Rect 0 280 20 20, Rect 20 280 20 20, Rect 40 280 20 20, Rect 60 280 20 20,
       Rect 80 280 20 20, Rect 100 280 20 20, Rect 120 280 20 20, Rect 140 280 20 20,
       Rect 160 280 20 20, Rect 180 280 20 20],
     food := Some (Rect 500 300 20 20), score := 7, high_score := 9,
     current_style_index := 1, current_style := style_amber,
     ghosting_frames := [\<lparr>pixels = (), surf_alpha = Some 30\<rparr>]\<rparr>"

definition demo_restart :: "unit game" where
  "demo_restart = demo_over7\<lparr>random_gen := skip_draws 18 demo_rng, snake := start_snake,
     food := Some (Rect 620 60 20 20), direction := ''R'', running := True, score := 0,
     game_start_time := 5, ghosting_frames := [], current_style_index := 0,
     current_style := style_green, update_timer := 100\<rparr>"

text \<open>The constructor's session with frames of type \<open>nat\<close>, and the session after
  the first five frames, numbered 1 to 5, have been drawn.\<close>

definition ghost_start :: "nat game" where
  "ghost_start = (init_fields demo_rng)\<lparr>random_gen := skip_draws 2 demo_rng,
     snake := start_snake, food := Some (Rect 420 300 20 20), running := True,
     update_timer := 100\<rparr>"

definition demo_ghost :: "nat game" where
  "demo_ghost = ghost_start\<lparr>ghosting_frames :=
     [\<lparr>pixels = 1, surf_alpha = Some 20\<rparr>, \<lparr>pixels = 2, surf_alpha = Some 16\<rparr>,
      \<lparr>pixels = 3, surf_alpha = Some 12\<rparr>, \<lparr>pixels = 4, surf_alpha = Some 8\<rparr>,
      \<lparr>pixels = 5, surf_alpha = Some 3\<rparr>]\<rparr>"

section \<open>Properties\<close>

lemmas consts_defs =
  SCREEN_WIDTH_def SCREEN_HEIGHT_def UNIT_SIZE_def DELAY_MS_def BORDER_SIZE_def
  STYLE_CHANGE_SCORE_INTERVAL_def max_ghosting_frames_def

subsection \<open>The loop of new_food\<close>

lemma randint_range:
  "a \<le> b \<Longrightarrow> a \<le> fst (randint a b r) \<and> fst (randint a b r) \<le> b"
proof -
  assume ab: "a \<le> b"
  then have pos: "0 < b - a + 1" by simp
  have "0 \<le> int (draws r (cursor r)) mod (b - a + 1)"
    using pos by (rule pos_mod_sign)
  moreover have "int (draws r (cursor r)) mod (b - a + 1) < b - a + 1"
    using pos by (rule pos_mod_bound)
  ultimately show ?thesis by (simp add: randint_def)
qed

lemma randint_rng: "snd (randint a b r) = skip_draws 1 r"
  by (simp add: randint_def skip_draws_def)

lemma skip_draws_add: "skip_draws m (skip_draws n r) = skip_draws (n + m) r"
  by (simp add: skip_draws_def add.assoc)

lemma place_food_eq:
  "place_food a b c d g =
     g\<lparr>random_gen := skip_draws 2 (random_gen g),
       food := Some (Rect (fst (randint a b (random_gen g)) * UNIT_SIZE)
                          (fst (randint c d (skip_draws 1 (random_gen g))) * UNIT_SIZE)
                          UNIT_SIZE UNIT_SIZE)\<rparr>"
  by (simp add: place_food_def Let_def randint_def skip_draws_def split: prod.splits)

lemma place_food_frame:
  assumes "a \<le> b" "c \<le> d"
  shows "\<exists>f. place_food a b c d g = g\<lparr>random_gen := skip_draws 2 (random_gen g), food := Some f\<rparr>
           \<and> food_cell_ok a b c d f"
  unfolding place_food_eq food_cell_ok_def
  using randint_range[OF assms(1), of "random_gen g"]
        randint_range[OF assms(2), of "skip_draws 1 (random_gen g)"]
  by blast

lemma attempts_frame:
  assumes "a \<le> b" "c \<le> d"
  shows "\<exists>f. (place_food a b c d ^^ Suc k) g
              = g\<lparr>random_gen := skip_draws (2 * Suc k) (random_gen g), food := Some f\<rparr>
           \<and> food_cell_ok a b c d f"
proof (induction k)
  case 0
  show ?case using place_food_frame[OF assms, of g] by simp
next
  case (Suc k)
  then obtain f where f: "(place_food a b c d ^^ Suc k) g
      = g\<lparr>random_gen := skip_draws (2 * Suc k) (random_gen g), food := Some f\<rparr>" by blast
  define g1 where "g1 = g\<lparr>random_gen := skip_draws (2 * Suc k) (random_gen g), food := Some f\<rparr>"
  obtain f' where f': "place_food a b c d g1
      = g1\<lparr>random_gen := skip_draws 2 (random_gen g1), food := Some f'\<rparr>"
     and ok: "food_cell_ok a b c d f'"
    using place_food_frame[OF assms, of g1] by blast
  have "(place_food a b c d ^^ Suc (Suc k)) g = place_food a b c d ((place_food a b c d ^^ Suc k) g)"
    by simp
  also have "\<dots> = place_food a b c d g1" by (simp only: f g1_def)
  also have "\<dots> = g\<lparr>random_gen := skip_draws (2 * Suc (Suc k)) (random_gen g), food := Some f'\<rparr>"
    unfolding f' by (simp add: g1_def skip_draws_add)
  finally have "(place_food a b c d ^^ Suc (Suc k)) g
      = g\<lparr>random_gen := skip_draws (2 * Suc (Suc k)) (random_gen g), food := Some f'\<rparr>" .
  with ok show ?case by blast
qed

lemma loop_returns:
  "\<not> food_on_snake ((place_food a b c d ^^ Suc k) g) \<Longrightarrow>
   \<exists>j\<le>k. new_food_loop a b c d g = Some ((place_food a b c d ^^ Suc j) g)
        \<and> \<not> food_on_snake ((place_food a b c d ^^ Suc j) g)"
proof (induction k arbitrary: g)
  case 0
  then have "new_food_loop a b c d g = Some (place_food a b c d g)"
    by (subst new_food_loop.simps) (simp add: Let_def)
  with 0 show ?case by simp
next
  case (Suc k)
  show ?case
  proof (cases "food_on_snake (place_food a b c d g)")
    case False
    then have "new_food_loop a b c d g = Some (place_food a b c d g)"
      by (subst new_food_loop.simps) (simp add: Let_def)
    with False have "new_food_loop a b c d g = Some ((place_food a b c d ^^ Suc 0) g)
        \<and> \<not> food_on_snake ((place_food a b c d ^^ Suc 0) g)" by simp
    then show ?thesis by blast
  next
    case True
    then have unf: "new_food_loop a b c d g = new_food_loop a b c d (place_food a b c d g)"
      by (subst new_food_loop.simps) (simp add: Let_def)
    have sw: "\<And>n. (place_food a b c d ^^ Suc n) (place_food a b c d g)
                 = (place_food a b c d ^^ Suc (Suc n)) g"
      by (simp add: funpow_swap1)
    from Suc.prems have "\<not> food_on_snake ((place_food a b c d ^^ Suc k) (place_food a b c d g))"
      unfolding sw .
    from Suc.IH[OF this] obtain j where j: "j \<le> k"
      "new_food_loop a b c d (place_food a b c d g)
         = Some ((place_food a b c d ^^ Suc j) (place_food a b c d g))"
      "\<not> food_on_snake ((place_food a b c d ^^ Suc j) (place_food a b c d g))" by blast
    have "Suc j \<le> Suc k" using j(1) by simp
    moreover have "new_food_loop a b c d g = Some ((place_food a b c d ^^ Suc (Suc j)) g)"
      using j(2) unfolding unf sw .
    moreover have "\<not> food_on_snake ((place_food a b c d ^^ Suc (Suc j)) g)"
      using j(3) unfolding sw .
    ultimately show ?thesis by blast
  qed
qed

lemma loop_only_if:
  assumes "new_food_loop a b c d g = Some g'"
  shows "\<exists>k. g' = (place_food a b c d ^^ Suc k) g \<and> \<not> food_on_snake g'"
proof (rule new_food_loop.raw_induct[where P = "\<lambda>a b c d g g'.
          \<exists>k. g' = (place_food a b c d ^^ Suc k) g \<and> \<not> food_on_snake g'", OF _ assms])
  fix loop :: "int \<Rightarrow> int \<Rightarrow> int \<Rightarrow> int \<Rightarrow> 'a game \<Rightarrow> 'a game option"
  fix a b c d g g'
  assume IH: "\<And>a b c d g y. loop a b c d g = Some y \<Longrightarrow>
                \<exists>k. y = (place_food a b c d ^^ Suc k) g \<and> \<not> food_on_snake y"
    and eq: "(let g' = place_food a b c d g
              in if \<not> food_on_snake g' then Some g' else loop a b c d g') = Some g'"
  show "\<exists>k. g' = (place_food a b c d ^^ Suc k) g \<and> \<not> food_on_snake g'"
  proof (cases "food_on_snake (place_food a b c d g)")
    case False
    with eq have "g' = (place_food a b c d ^^ Suc 0) g" by (simp add: Let_def)
    moreover from False eq have "\<not> food_on_snake g'" by (simp add: Let_def)
    ultimately show ?thesis by blast
  next
    case True
    with eq have "loop a b c d (place_food a b c d g) = Some g'" by (simp add: Let_def)
    from IH[OF this] obtain k where
      "g' = (place_food a b c d ^^ Suc k) (place_food a b c d g)" "\<not> food_on_snake g'" by blast
    then have "g' = (place_food a b c d ^^ Suc (Suc k)) g \<and> \<not> food_on_snake g'"
      by (simp add: funpow_swap1)
    then show ?thesis by blast
  qed
qed

text \<open>
  \<^verbatim>\<open>new_food\<close> returns as soon as one pass of its loop draws a cell that overlaps
  no segment of the snake: if pass \<open>k + 1\<close> would draw such a cell, the call returns
  the session of the first such pass.
\<close>

lemma new_food_returns:
  assumes "\<not> food_on_snake (food_attempts (Suc k) g)"
  shows "\<exists>j\<le>k. new_food g = Some (food_attempts (Suc j) g)
           \<and> \<not> food_on_snake (food_attempts (Suc j) g)"
  using assms unfolding food_attempts_def new_food_def Let_def by (rule loop_returns)

subsection \<open>Evaluating the concrete sessions\<close>

lemmas eval_defs =
  consts_defs Rect_def rect_left_def rect_right_def rect_top_def rect_bottom_def rect_move_def
  colliderect_def randint_def skip_draws_def crt_styles_def init_fields_def
  place_food_def food_on_snake_def new_food_def start_snake_def start_game_def
  new_head_pos_def move_def score_point_def check_food_def wall_collision_def
  self_collision_def check_collisions_def game_update_def and_then_def Let_def
  demo_rng_def demo_start_def demo_fed_def demo_four_def demo_five_def
  demo_wall_def demo_over_def demo_over7_def demo_restart_def

lemma new_food_demo_start:
  "new_food demo_start = Some (demo_start\<lparr>random_gen := skip_draws 4 demo_rng, food := Some (Rect 540 60 20 20)\<rparr>)"
  unfolding new_food_def Let_def
  by (subst new_food_loop.simps) (simp add: eval_defs)

lemma start_demo: "start_game 0 (init_fields demo_rng) = Some demo_start"
  unfolding start_game_def new_food_def Let_def
  by (subst new_food_loop.simps) (simp add: eval_defs)

lemma tick_demo_start: "game_update demo_start = Some (Inr demo_fed)"
  unfolding game_update_def check_food_def new_food_def
  by (subst new_food_loop.simps) (simp add: eval_defs)

lemma tick_demo_four: "game_update demo_four = Some (Inr demo_five)"
  unfolding game_update_def check_food_def new_food_def
  by (subst new_food_loop.simps) (simp add: eval_defs style_amber_def)

lemma tick_demo_wall: "game_update demo_wall = Some (Inr demo_over)"
  by (simp add: eval_defs)

lemma restart_demo:
  "handle_event 5 (True, demo_over7) (KEYDOWN K_SPACE) = Some (Inr (True, demo_restart))"
  unfolding handle_event.simps start_game_def new_food_def Let_def
  by (subst new_food_loop.simps) (simp add: eval_defs style_green_def)

subsection \<open>A run to the left wall\<close>

lemma left_row_tick:
  assumes "k < 17"
  shows "game_update (left_row k) = Some (Inr (left_row (Suc k)))"
  using assms by (simp add: left_row_def eval_defs)

lemma demo_wall_row: "demo_wall = left_row 17"
  by (simp add: left_row_def eval_defs)

lemma reachable_left_row_0: "reachable (left_row 0)"
proof -
  define s1 where "s1 = demo_start\<lparr>direction := ''U''\<rparr>"
  define s2 where "s2 = s1\<lparr>snake := [Rect 400 280 20 20, Rect 400 300 20 20, Rect 380 300 20 20]\<rparr>"
  define s3 where "s3 = s2\<lparr>direction := ''L''\<rparr>"
  define s4 where "s4 = s3\<lparr>snake := [Rect 380 280 20 20, Rect 400 280 20 20, Rect 400 300 20 20]\<rparr>"
  have r0: "reachable demo_start" using start_demo by (rule reachable_init)
  have "handle_event 0 (True, demo_start) (KEYDOWN K_UP) = Some (Inr (True, s1))"
    by (simp add: s1_def eval_defs)
  with r0 have r1: "reachable s1" by (rule reachable_event)
  have "handle_event 0 (True, s1) GAME_UPDATE = Some (Inr (True, s2))"
    by (simp add: s1_def s2_def eval_defs)
  with r1 have r2: "reachable s2" by (rule reachable_event)
  have "handle_event 0 (True, s2) (KEYDOWN K_LEFT) = Some (Inr (True, s3))"
    by (simp add: s1_def s2_def s3_def eval_defs)
  with r2 have r3: "reachable s3" by (rule reachable_event)
  have "handle_event 0 (True, s3) GAME_UPDATE = Some (Inr (True, s4))"
    by (simp add: s1_def s2_def s3_def s4_def eval_defs)
  with r3 have r4: "reachable s4" by (rule reachable_event)
  have "handle_event 0 (True, s4) GAME_UPDATE = Some (Inr (True, left_row 0))"
    by (simp add: s1_def s2_def s3_def s4_def left_row_def eval_defs)
  with r4 show ?thesis by (rule reachable_event)
qed

lemma reachable_left_row: "k \<le> 17 \<Longrightarrow> reachable (left_row k)"
proof (induction k)
  case 0
  show ?case by (rule reachable_left_row_0)
next
  case (Suc k)
  then have r: "reachable (left_row k)" and k: "k < 17" by simp_all
  have "handle_event 0 (True, left_row k) GAME_UPDATE = Some (Inr (True, left_row (Suc k)))"
    by (simp add: left_row_tick[OF k] and_then_def)
  with r show ?case by (rule reachable_event)
qed

lemma reachable_demo_wall: "reachable demo_wall"
  unfolding demo_wall_row by (rule reachable_left_row) simp

lemma reachable_demo_over: "reachable demo_over"
proof -
  have "handle_event 0 (True, demo_wall) GAME_UPDATE = Some (Inr (True, demo_over))"
    by (simp add: tick_demo_wall and_then_def)
  with reachable_demo_wall show ?thesis by (rule reachable_event)
qed

lemma demo_over7_well_formed: "session_inv demo_over7 \<and> board_inv demo_over7"
  by (simp add: session_inv_def board_inv_def unit_aligned_def grid_cell_def eval_defs
      style_amber_def)

subsection \<open>The steps of a tick\<close>

lemma new_food_frame:
  assumes "new_food g = Some g'"
  shows "\<exists>r f. g' = g\<lparr>random_gen := r, food := Some f\<rparr> \<and> food_cell_ok 1 38 1 28 f
           \<and> \<not> food_on_snake g'"
proof -
  from assms have "new_food_loop 1 38 1 28 g = Some g'"
    by (simp add: new_food_def consts_defs)
  from loop_only_if[OF this] obtain k where
    k: "g' = (place_food 1 38 1 28 ^^ Suc k) g" and free: "\<not> food_on_snake g'" by blast
  have "(1::int) \<le> 38" "(1::int) \<le> 28" by simp_all
  from attempts_frame[OF this, of k g] k free show ?thesis by blast
qed

lemma food_cell_ok_grid: "food_cell_ok 1 38 1 28 f \<Longrightarrow> grid_cell f"
  by (auto simp: food_cell_ok_def grid_cell_def wall_collision_def Rect_def rect_left_def
      rect_right_def rect_top_def rect_bottom_def consts_defs)

lemma move_Inr:
  assumes "move g = Inr g1"
  shows "\<exists>head body f. snake g = head # body \<and> food g = Some f
     \<and> g1 = g\<lparr>snake := (if colliderect (new_head_pos (direction g) head) f
                          then new_head_pos (direction g) head # snake g
                          else new_head_pos (direction g) head # butlast (snake g))\<rparr>"
  using assms by (auto simp: move_def Let_def split: list.splits option.splits if_splits)

lemma check_food_Inr:
  assumes "check_food g = Some (Inr g')"
  shows "\<exists>head body f. snake g = head # body \<and> food g = Some f
     \<and> (if colliderect head f then new_food (score_point g) = Some g' else g' = g)"
  using assms by (auto simp: check_food_def split: list.splits option.splits if_splits)

lemma check_collisions_Inr:
  assumes "check_collisions g = Inr g'" "running g"
  shows "\<exists>head body. snake g = head # body
     \<and> g' = (if wall_collision head \<or> self_collision head body
             then g\<lparr>running := False, update_timer := 0\<rparr> else g)"
  using assms by (auto simp: check_collisions_def Let_def split: list.splits if_splits)

lemma score_point_fields:
  "snake (score_point g) = snake g" "food (score_point g) = food g"
  "running (score_point g) = running g" "direction (score_point g) = direction g"
  "score (score_point g) = score g + 1"
  "high_score (score_point g) = max (high_score g) (score g + 1)"
  "current_style_index (score_point g) =
     (if 0 < score g + 1 \<and> (score g + 1) mod 5 = 0 then (current_style_index g + 1) mod 3
      else current_style_index g)"
  "current_style (score_point g) =
     (if 0 < score g + 1 \<and> (score g + 1) mod 5 = 0
      then crt_styles ! nat ((current_style_index g + 1) mod 3) else current_style g)"
  "ghosting_frames (score_point g) = ghosting_frames g"
  by (simp_all add: score_point_def Let_def consts_defs crt_styles_def)

text \<open>What one tick of a running session does to the fields the claims speak of.\<close>

lemma game_update_running:
  assumes run: "running g" and upd: "game_update g = Some (Inr g')"
  shows "\<exists>head body f. snake g = head # body \<and> food g = Some f \<and>
     (let nh = new_head_pos (direction g) head;
          eaten = colliderect nh f;
          body' = (if eaten then snake g else butlast (snake g))
      in snake g' = nh # body'
       \<and> running g' = (\<not> (wall_collision nh \<or> self_collision nh body'))
       \<and> direction g' = direction g
       \<and> score g' = (if eaten then score g + 1 else score g)
       \<and> high_score g' = (if eaten then max (high_score g) (score g + 1) else high_score g)
       \<and> current_style_index g' =
           (if eaten \<and> 0 < score g + 1 \<and> (score g + 1) mod 5 = 0
            then (current_style_index g + 1) mod 3 else current_style_index g)
       \<and> current_style g' =
           (if eaten \<and> 0 < score g + 1 \<and> (score g + 1) mod 5 = 0
            then crt_styles ! nat ((current_style_index g + 1) mod 3) else current_style g)
       \<and> ghosting_frames g' = ghosting_frames g
       \<and> (\<not> eaten \<longrightarrow> food g' = food g))"
proof -
  from run upd obtain g1 g2 where
    m: "move g = Inr g1" and cf: "check_food g1 = Some (Inr g2)"
    and cc: "check_collisions g2 = Inr g'"
    by (auto simp: game_update_def and_then_def split: option.splits sum.splits)
  from move_Inr[OF m] obtain head body f where
    sn: "snake g = head # body" and fd: "food g = Some f"
    and g1: "g1 = g\<lparr>snake := (if colliderect (new_head_pos (direction g) head) f
                          then new_head_pos (direction g) head # snake g
                          else new_head_pos (direction g) head # butlast (snake g))\<rparr>"
    by blast
  define nh where "nh = new_head_pos (direction g) head"
  define body' where "body' = (if colliderect nh f then snake g else butlast (snake g))"
  have g1': "g1 = g\<lparr>snake := nh # body'\<rparr>"
    using g1 by (simp add: nh_def body'_def)
  from check_food_Inr[OF cf]
  have c2: "if colliderect nh f then new_food (score_point g1) = Some g2 else g2 = g1"
    by (simp add: g1' fd)
  have g2: "snake g2 = nh # body' \<and> running g2 \<and> direction g2 = direction g
      \<and> score g2 = (if colliderect nh f then score g + 1 else score g)
      \<and> high_score g2 = (if colliderect nh f then max (high_score g) (score g + 1) else high_score g)
      \<and> current_style_index g2 =
           (if colliderect nh f \<and> 0 < score g + 1 \<and> (score g + 1) mod 5 = 0
            then (current_style_index g + 1) mod 3 else current_style_index g)
      \<and> current_style g2 =
          (if colliderect nh f \<and> 0 < score g + 1 \<and> (score g + 1) mod 5 = 0
           then crt_styles ! nat ((current_style_index g + 1) mod 3) else current_style g)
      \<and> ghosting_frames g2 = ghosting_frames g
      \<and> (\<not> colliderect nh f \<longrightarrow> food g2 = food g)"
  proof (cases "colliderect nh f")
    case True
    with c2 have "new_food (score_point g1) = Some g2" by simp
    from new_food_frame[OF this] obtain r f' where
      "g2 = (score_point g1)\<lparr>random_gen := r, food := Some f'\<rparr>" by blast
    then show ?thesis using True run by (simp add: score_point_fields g1')
  next
    case False
    with c2 have "g2 = g1" by simp
    then show ?thesis using False run by (simp add: g1')
  qed
  then have run2: "running g2" and sn2: "snake g2 = nh # body'" by simp_all
  from check_collisions_Inr[OF cc run2] sn2
  have g': "g' = (if wall_collision nh \<or> self_collision nh body'
             then g2\<lparr>running := False, update_timer := 0\<rparr> else g2)" by simp
  have "snake g' = nh # body'
       \<and> running g' = (\<not> (wall_collision nh \<or> self_collision nh body'))
       \<and> direction g' = direction g
       \<and> score g' = (if colliderect nh f then score g + 1 else score g)
       \<and> high_score g' = (if colliderect nh f then max (high_score g) (score g + 1) else high_score g)
       \<and> current_style_index g' =
           (if colliderect nh f \<and> 0 < score g + 1 \<and> (score g + 1) mod 5 = 0
            then (current_style_index g + 1) mod 3 else current_style_index g)
       \<and> current_style g' =
           (if colliderect nh f \<and> 0 < score g + 1 \<and> (score g + 1) mod 5 = 0
            then crt_styles ! nat ((current_style_index g + 1) mod 3) else current_style g)
       \<and> ghosting_frames g' = ghosting_frames g
       \<and> (\<not> colliderect nh f \<longrightarrow> food g' = food g)"
    using g2 unfolding g' by simp
  then show ?thesis using sn fd unfolding Let_def nh_def body'_def by blast
qed

lemma start_game_Some:
  assumes "start_game now g = Some g'"
  shows "\<exists>r f. g' = g\<lparr>random_gen := r, snake := start_snake, food := Some f,
             direction := ''R'', running := True, score := 0, game_start_time := now,
             ghosting_frames := [], current_style_index := 0,
             current_style := crt_styles ! 0, update_timer := DELAY_MS\<rparr>
        \<and> food_cell_ok 1 38 1 28 f \<and> \<not> list_ex (\<lambda>segment. colliderect segment f) start_snake"
proof -
  define g1 where "g1 = g\<lparr>snake := start_snake, direction := ''R'', score := 0,
                 current_style_index := 0, current_style := crt_styles ! 0\<rparr>"
  from assms obtain g2 where nf: "new_food g1 = Some g2"
    and g': "g' = g2\<lparr>running := True, game_start_time := now,
                      ghosting_frames := [], update_timer := DELAY_MS\<rparr>"
    by (auto simp: start_game_def Let_def g1_def split: option.splits)
  from new_food_frame[OF nf] obtain r f where
    g2: "g2 = g1\<lparr>random_gen := r, food := Some f\<rparr>" and ok: "food_cell_ok 1 38 1 28 f"
    and free: "\<not> food_on_snake g2" by blast
  from free have "\<not> list_ex (\<lambda>segment. colliderect segment f) start_snake"
    by (simp add: food_on_snake_def g2 g1_def)
  moreover have "g' = g\<lparr>random_gen := r, snake := start_snake, food := Some f,
             direction := ''R'', running := True, score := 0, game_start_time := now,
             ghosting_frames := [], current_style_index := 0,
             current_style := crt_styles ! 0, update_timer := DELAY_MS\<rparr>"
    by (simp add: g' g2 g1_def)
  ultimately show ?thesis using ok by blast
qed

subsection \<open>The invariant of reachable sessions\<close>

lemma handle_event_cases:
  assumes "handle_event now (rg, g) e = Some (Inr (rg', g'))"
  shows "g' = g \<or> (\<exists>d. g' = g\<lparr>direction := d\<rparr>)
       \<or> (\<not> running g \<and> e = KEYDOWN K_SPACE \<and> start_game now g = Some g')
       \<or> (running g \<and> e = GAME_UPDATE \<and> game_update g = Some (Inr g'))"
proof (cases e)
  case QUIT
  with assms show ?thesis by simp
next
  case (KEYDOWN k)
  with assms show ?thesis by (cases k) (auto split: if_splits)
next
  case GAME_UPDATE
  with assms show ?thesis
    by (cases "running g") (auto simp: and_then_def game_update_def split: option.splits sum.splits)
next
  case OTHER_EVENT
  with assms show ?thesis by simp
qed

lemma style_index_step:
  fixes s :: int
  shows "((s + 1) div 5) mod 3 =
         (if (s + 1) mod 5 = 0 then ((s div 5) mod 3 + 1) mod 3 else (s div 5) mod 3)"
proof (cases "(s + 1) mod 5 = 0")
  case True
  then obtain q where q: "s + 1 = 5 * q" by (metis mod_eq_0_iff_dvd dvd_def)
  then have s: "s = 5 * (q - 1) + 4" by simp
  have "s div 5 = q - 1" unfolding s by simp
  moreover have "(s + 1) div 5 = q" unfolding q by simp
  ultimately show ?thesis using True by (simp add: mod_simps)
next
  case False
  have "(s + 1) div 5 = s div 5"
  proof (rule int_div_pos_eq)
    show "s + 1 = 5 * (s div 5) + (s mod 5 + 1)" by simp
    show "0 \<le> s mod 5 + 1" by simp
    have "s mod 5 \<noteq> 4" using False by presburger
    moreover have "s mod 5 < 5" by simp
    ultimately show "s mod 5 + 1 < 5" by simp
  qed
  with False show ?thesis by simp
qed

lemma length_set_alphas: "length (set_alphas ga fs) = length fs"
  by (simp add: set_alphas_def)

lemma draw_fields:
  "snake (fst (draw c g)) = snake g" "score (fst (draw c g)) = score g"
  "high_score (fst (draw c g)) = high_score g"
  "current_style_index (fst (draw c g)) = current_style_index g"
  "current_style (fst (draw c g)) = current_style g"
  "running (fst (draw c g)) = running g"
  "food (fst (draw c g)) = food g"
  "direction (fst (draw c g)) = direction g"
  by (simp_all add: draw_def Let_def)

lemma draw_length:
  "length (ghosting_frames g) \<le> 5 \<Longrightarrow> length (ghosting_frames (fst (draw c g))) \<le> 5"
  by (simp add: draw_def Let_def length_set_alphas max_ghosting_frames_def)

lemma session_inv_start:
  assumes "start_game now g = Some g'" "0 \<le> high_score g"
  shows "session_inv g'"
proof -
  from start_game_Some[OF assms(1)] obtain r f where
    "g' = g\<lparr>random_gen := r, snake := start_snake, food := Some f,
             direction := ''R'', running := True, score := 0, game_start_time := now,
             ghosting_frames := [], current_style_index := 0,
             current_style := crt_styles ! 0, update_timer := DELAY_MS\<rparr>" by blast
  then show ?thesis using assms(2) by (simp add: session_inv_def start_snake_def Let_def)
qed

lemma session_inv_tick:
  assumes inv: "session_inv g" and run: "running g" and upd: "game_update g = Some (Inr g')"
  shows "session_inv g'"
proof -
  from game_update_running[OF run upd] obtain head body f where
    sn: "snake g = head # body" and
    st: "let nh = new_head_pos (direction g) head;
          eaten = colliderect nh f;
          body' = (if eaten then snake g else butlast (snake g))
      in snake g' = nh # body'
       \<and> running g' = (\<not> (wall_collision nh \<or> self_collision nh body'))
       \<and> direction g' = direction g
       \<and> score g' = (if eaten then score g + 1 else score g)
       \<and> high_score g' = (if eaten then max (high_score g) (score g + 1) else high_score g)
       \<and> current_style_index g' =
           (if eaten \<and> 0 < score g + 1 \<and> (score g + 1) mod 5 = 0
            then (current_style_index g + 1) mod 3 else current_style_index g)
       \<and> current_style g' =
           (if eaten \<and> 0 < score g + 1 \<and> (score g + 1) mod 5 = 0
            then crt_styles ! nat ((current_style_index g + 1) mod 3) else current_style g)
       \<and> ghosting_frames g' = ghosting_frames g
       \<and> (\<not> eaten \<longrightarrow> food g' = food g)" by blast
  define nh where "nh = new_head_pos (direction g) head"
  define eaten where "eaten = colliderect nh f"
  from st have
    sn': "snake g' = nh # (if eaten then snake g else butlast (snake g))" and
    sc': "score g' = (if eaten then score g + 1 else score g)" and
    hs': "high_score g' = (if eaten then max (high_score g) (score g + 1) else high_score g)" and
    ix': "current_style_index g' =
           (if eaten \<and> 0 < score g + 1 \<and> (score g + 1) mod 5 = 0
            then (current_style_index g + 1) mod 3 else current_style_index g)" and
    cs': "current_style g' =
           (if eaten \<and> 0 < score g + 1 \<and> (score g + 1) mod 5 = 0
            then crt_styles ! nat ((current_style_index g + 1) mod 3) else current_style g)" and
    gf': "ghosting_frames g' = ghosting_frames g"
    by (simp_all add: Let_def nh_def eaten_def)
  from inv have len: "int (length (snake g)) = score g + 3" and s0: "0 \<le> score g"
    and hs: "score g \<le> high_score g"
    and ix: "current_style_index g = (score g div 5) mod 3"
    and cs: "current_style g = crt_styles ! nat (current_style_index g)"
    and gf: "length (ghosting_frames g) \<le> 5"
    by (simp_all add: session_inv_def)
  have pos: "0 < score g + 1" using s0 by simp
  have lb: "length (butlast (snake g)) = length (snake g) - 1" by simp
  have l1: "1 \<le> length (snake g)" using sn by simp
  show ?thesis
  proof (cases eaten)
    case True
    have "int (length (snake g')) = score g' + 3" using True sn' sc' len by simp
    moreover have "0 \<le> score g'" using True sc' s0 by simp
    moreover have "score g' \<le> high_score g'" using True sc' hs' by simp
    moreover have i2: "current_style_index g' = (score g' div 5) mod 3"
      using True sc' ix' pos ix style_index_step[of "score g"] by simp
    moreover have "current_style g' = crt_styles ! nat (current_style_index g')"
      using True ix' cs' cs pos by simp
    moreover have "length (ghosting_frames g') \<le> 5" using gf gf' by simp
    ultimately show ?thesis unfolding session_inv_def by blast
  next
    case False
    have "int (length (snake g')) = score g' + 3" using False sn' sc' len lb l1 by simp
    moreover have "0 \<le> score g'" using False sc' s0 by simp
    moreover have "score g' \<le> high_score g'" using False sc' hs' hs by simp
    moreover have i2: "current_style_index g' = (score g' div 5) mod 3"
      using False sc' ix' ix by simp
    moreover have "current_style g' = crt_styles ! nat (current_style_index g')"
      using False ix' cs' cs by simp
    moreover have "length (ghosting_frames g') \<le> 5" using gf gf' by simp
    ultimately show ?thesis unfolding session_inv_def by blast
  qed
qed

lemma reachable_inv: "reachable g \<Longrightarrow> session_inv g"
proof (induction rule: reachable.induct)
  case (reachable_init now r g)
  then show ?case by (rule session_inv_start) (simp add: init_fields_def)
next
  case (reachable_event g now rg e rg' g')
  from handle_event_cases[OF reachable_event.hyps(2)]
  consider "g' = g" | d where "g' = g\<lparr>direction := d\<rparr>"
    | "start_game now g = Some g'" | "running g" "game_update g = Some (Inr g')" by blast
  then show ?case
  proof cases
    case 1
    with reachable_event.IH show ?thesis by simp
  next
    case 2
    with reachable_event.IH show ?thesis by (simp add: session_inv_def)
  next
    case 3
    moreover from reachable_event.IH have "0 \<le> high_score g" by (simp add: session_inv_def)
    ultimately show ?thesis by (rule session_inv_start)
  next
    case 4
    with reachable_event.IH show ?thesis by (blast intro: session_inv_tick)
  qed
next
  case (reachable_draw g composed)
  then show ?case by (simp add: session_inv_def draw_fields draw_length)
qed

subsection \<open>The board invariant, and ticks that return\<close>

lemma aligned_step:
  fixes a b :: int
  assumes "a mod 20 = 0" "b mod 20 = 0" "a < b + 20" "b < a + 20"
  shows "a = b"
proof -
  from assms(1) obtain k where k: "a = 20 * k" by (metis mod_eq_0_iff_dvd dvd_def)
  from assms(2) obtain l where l: "b = 20 * l" by (metis mod_eq_0_iff_dvd dvd_def)
  from assms(3,4) have "k < l + 1" "l < k + 1" unfolding k l by simp_all
  then show ?thesis unfolding k l by simp
qed

lemma aligned_collide:
  assumes "unit_aligned a" "unit_aligned b"
  shows "colliderect a b = (rect_x a = rect_x b \<and> rect_y a = rect_y b)"
proof
  assume c: "colliderect a b"
  from assms have w: "rect_w a = 20" "rect_h a = 20" "rect_w b = 20" "rect_h b = 20"
    and m: "rect_x a mod 20 = 0" "rect_y a mod 20 = 0" "rect_x b mod 20 = 0" "rect_y b mod 20 = 0"
    by (simp_all add: unit_aligned_def UNIT_SIZE_def)
  from c w have "rect_x a < rect_x b + 20" "rect_x b < rect_x a + 20"
    "rect_y a < rect_y b + 20" "rect_y b < rect_y a + 20"
    by (simp_all add: colliderect_def)
  then have "rect_x a = rect_x b" "rect_y a = rect_y b"
    using m by (auto intro: aligned_step[of "rect_x a" "rect_x b"]
        aligned_step[of "rect_y a" "rect_y b"])
  then show "rect_x a = rect_x b \<and> rect_y a = rect_y b" by simp
next
  assume "rect_x a = rect_x b \<and> rect_y a = rect_y b"
  with assms show "colliderect a b"
    by (simp add: colliderect_def unit_aligned_def UNIT_SIZE_def)
qed

lemma aligned_collide_wall:
  assumes "unit_aligned a" "unit_aligned b" "colliderect a b"
  shows "wall_collision a = wall_collision b"
  using assms aligned_collide[OF assms(1,2)]
  by (simp add: wall_collision_def unit_aligned_def rect_left_def rect_right_def rect_top_def
      rect_bottom_def)

lemma grid_cell_aligned: "grid_cell f \<Longrightarrow> unit_aligned f"
  by (simp add: grid_cell_def unit_aligned_def)

lemma new_head_pos_aligned: "unit_aligned h \<Longrightarrow> unit_aligned (new_head_pos d h)"
  by (simp add: new_head_pos_def unit_aligned_def rect_move_def Rect_def UNIT_SIZE_def)

lemma check_collisions_returns:
  "snake g \<noteq> [] \<Longrightarrow> \<exists>g'. check_collisions g = Inr g'"
  by (cases "snake g") (simp_all add: check_collisions_def Let_def)

text \<open>A tick that eats nothing calls no \<^verbatim>\<open>new_food\<close>: it returns.\<close>

lemma game_update_returns:
  assumes "running g" "snake g = head # body" "food g = Some f"
    and "\<not> colliderect (new_head_pos (direction g) head) f"
  shows "\<exists>g'. game_update g = Some (Inr g')"
proof -
  define g1 where "g1 = g\<lparr>snake := new_head_pos (direction g) head # butlast (snake g)\<rparr>"
  have m: "move g = Inr g1" using assms by (simp add: move_def Let_def g1_def)
  have cf: "check_food g1 = Some (Inr g1)" using assms by (simp add: check_food_def g1_def)
  have "snake g1 \<noteq> []" by (simp add: g1_def)
  from check_collisions_returns[OF this] obtain g' where "check_collisions g1 = Inr g'" ..
  with m cf assms(1) have "game_update g = Some (Inr g')"
    by (simp add: game_update_def and_then_def)
  then show ?thesis ..
qed

lemma game_update_eaten_food:
  assumes run: "running g" and upd: "game_update g = Some (Inr g')"
    and sn: "snake g = head # body" and fd: "food g = Some f"
    and eat: "colliderect (new_head_pos (direction g) head) f"
  shows "\<exists>f'. food g' = Some f' \<and> food_cell_ok 1 38 1 28 f' \<and> \<not> food_on_snake g'"
proof -
  from run upd obtain g1 g2 where
    m: "move g = Inr g1" and cf: "check_food g1 = Some (Inr g2)"
    and cc: "check_collisions g2 = Inr g'"
    by (auto simp: game_update_def and_then_def split: option.splits sum.splits)
  from m sn fd eat have g1: "g1 = g\<lparr>snake := new_head_pos (direction g) head # snake g\<rparr>"
    by (simp add: move_def Let_def)
  from check_food_Inr[OF cf] eat have "new_food (score_point g1) = Some g2"
    by (simp add: g1 fd)
  from new_food_frame[OF this] obtain r f' where
    g2: "g2 = (score_point g1)\<lparr>random_gen := r, food := Some f'\<rparr>"
    and ok: "food_cell_ok 1 38 1 28 f'" and free: "\<not> food_on_snake g2" by blast
  have run2: "running g2" using run by (simp add: g2 g1 score_point_fields)
  from check_collisions_Inr[OF cc run2]
  have "g' = g2 \<or> g' = g2\<lparr>running := False, update_timer := 0\<rparr>" by (auto split: if_splits)
  then have "food g' = food g2" "snake g' = snake g2" by auto
  with free ok show ?thesis by (simp add: food_on_snake_def g2)
qed

lemma board_inv_tick:
  assumes inv: "board_inv g" and run: "running g" and upd: "game_update g = Some (Inr g')"
  shows "board_inv g'"
proof -
  from game_update_running[OF run upd] obtain head body f where
    sn: "snake g = head # body" and fd: "food g = Some f" and
    st: "let nh = new_head_pos (direction g) head;
          eaten = colliderect nh f;
          body' = (if eaten then snake g else butlast (snake g))
      in snake g' = nh # body'
       \<and> running g' = (\<not> (wall_collision nh \<or> self_collision nh body'))
       \<and> direction g' = direction g
       \<and> score g' = (if eaten then score g + 1 else score g)
       \<and> high_score g' = (if eaten then max (high_score g) (score g + 1) else high_score g)
       \<and> current_style_index g' =
           (if eaten \<and> 0 < score g + 1 \<and> (score g + 1) mod 5 = 0
            then (current_style_index g + 1) mod 3 else current_style_index g)
       \<and> current_style g' =
           (if eaten \<and> 0 < score g + 1 \<and> (score g + 1) mod 5 = 0
            then crt_styles ! nat ((current_style_index g + 1) mod 3) else current_style g)
       \<and> ghosting_frames g' = ghosting_frames g
       \<and> (\<not> eaten \<longrightarrow> food g' = food g)" by blast
  from st have
    sn': "snake g' = new_head_pos (direction g) head #
            (if colliderect (new_head_pos (direction g) head) f then snake g
             else butlast (snake g))" and
    fd': "\<not> colliderect (new_head_pos (direction g) head) f \<longrightarrow> food g' = food g"
    by (simp_all add: Let_def)
  define nh where "nh = new_head_pos (direction g) head"
  from inv have al: "list_all unit_aligned (snake g)" and gc: "grid_cell f"
    and free: "\<not> food_on_snake g" by (simp_all add: board_inv_def fd)
  from al sn have "unit_aligned head" by simp
  then have nha: "unit_aligned nh" unfolding nh_def by (rule new_head_pos_aligned)
  have "list_all unit_aligned (butlast (snake g))"
    using al by (auto simp: list_all_iff dest: in_set_butlastD)
  with al nha sn' have al': "list_all unit_aligned (snake g')" by (simp add: nh_def)
  show ?thesis
  proof (cases "colliderect nh f")
    case True
    from game_update_eaten_food[OF run upd sn fd True[unfolded nh_def]] obtain f' where
      "food g' = Some f'" "food_cell_ok 1 38 1 28 f'" "\<not> food_on_snake g'" by blast
    with al' show ?thesis by (simp add: board_inv_def food_cell_ok_grid)
  next
    case False
    with fd' fd have f': "food g' = Some f" by (simp add: nh_def)
    from free have "\<forall>s \<in> set (snake g). \<not> colliderect s f"
      by (simp add: food_on_snake_def fd list_ex_iff)
    then have "\<forall>s \<in> set (butlast (snake g)). \<not> colliderect s f"
      by (blast dest: in_set_butlastD)
    with False sn' have "\<not> food_on_snake g'"
      by (simp add: food_on_snake_def f' list_ex_iff nh_def)
    with al' gc f' show ?thesis by (simp add: board_inv_def)
  qed
qed

lemma board_inv_start:
  assumes "start_game now g = Some g'"
  shows "board_inv g'"
proof -
  from start_game_Some[OF assms] obtain r f where
    g': "g' = g\<lparr>random_gen := r, snake := start_snake, food := Some f,
             direction := ''R'', running := True, score := 0, game_start_time := now,
             ghosting_frames := [], current_style_index := 0,
             current_style := crt_styles ! 0, update_timer := DELAY_MS\<rparr>"
    and ok: "food_cell_ok 1 38 1 28 f"
    and free: "\<not> list_ex (\<lambda>segment. colliderect segment f) start_snake" by blast
  have "list_all unit_aligned start_snake"
    by (simp add: start_snake_def unit_aligned_def Let_def Rect_def consts_defs)
  with free food_cell_ok_grid[OF ok] show ?thesis
    by (simp add: board_inv_def g' food_on_snake_def)
qed

lemma board_inv_cong:
  "snake g' = snake g \<Longrightarrow> food g' = food g \<Longrightarrow> board_inv g' = board_inv g"
  by (simp add: board_inv_def food_on_snake_def cong: option.case_cong)

lemma reachable_board_inv: "reachable g \<Longrightarrow> board_inv g"
proof (induction rule: reachable.induct)
  case (reachable_init now r g)
  then show ?case by (rule board_inv_start)
next
  case (reachable_event g now rg e rg' g')
  from handle_event_cases[OF reachable_event.hyps(2)]
  consider "g' = g" | d where "g' = g\<lparr>direction := d\<rparr>"
    | "start_game now g = Some g'" | "running g" "game_update g = Some (Inr g')" by blast
  then show ?case
  proof cases
    case 1
    with reachable_event.IH show ?thesis by simp
  next
    case 2
    then have "board_inv g' = board_inv g" by (intro board_inv_cong) simp_all
    with reachable_event.IH show ?thesis by simp
  next
    case 3
    then show ?thesis by (rule board_inv_start)
  next
    case 4
    with reachable_event.IH show ?thesis by (blast intro: board_inv_tick)
  qed
next
  case (reachable_draw g composed)
  have "board_inv (fst (draw composed g)) = board_inv g"
    by (intro board_inv_cong) (simp_all add: draw_fields)
  with reachable_draw.IH show ?case by simp
qed

text \<open>On a well-formed board a tick whose new head collides eats nothing.\<close>

lemma collision_not_eaten:
  assumes inv: "board_inv g" and sn: "snake g = head # body" and fd: "food g = Some f"
    and hit: "wall_collision (new_head_pos (direction g) head)
              \<or> self_collision (new_head_pos (direction g) head) (snake g)"
  shows "\<not> colliderect (new_head_pos (direction g) head) f"
proof
  define nh where "nh = new_head_pos (direction g) head"
  assume "colliderect (new_head_pos (direction g) head) f"
  then have c: "colliderect nh f" by (simp add: nh_def)
  from inv have al: "list_all unit_aligned (snake g)" and gc: "grid_cell f"
    and free: "\<not> food_on_snake g" by (simp_all add: board_inv_def fd)
  from al sn have "unit_aligned head" by simp
  then have nha: "unit_aligned nh" unfolding nh_def by (rule new_head_pos_aligned)
  have fa: "unit_aligned f" using gc by (rule grid_cell_aligned)
  have same: "rect_x nh = rect_x f \<and> rect_y nh = rect_y f"
    using c aligned_collide[OF nha fa] by simp
  from hit show False
  proof
    assume "wall_collision (new_head_pos (direction g) head)"
    then have "wall_collision f" using aligned_collide_wall[OF nha fa c] by (simp add: nh_def)
    with gc show False by (simp add: grid_cell_def)
  next
    assume "self_collision (new_head_pos (direction g) head) (snake g)"
    then obtain s where s: "s \<in> set (snake g)" "colliderect nh s"
      by (auto simp: self_collision_def list_ex_iff nh_def)
    from al s(1) have sa: "unit_aligned s" by (simp add: list_all_iff)
    from s(2) aligned_collide[OF nha sa] same have "rect_x s = rect_x f \<and> rect_y s = rect_y f"
      by simp
    with aligned_collide[OF sa fa] have "colliderect s f" by simp
    with s(1) free show False by (auto simp: food_on_snake_def fd list_ex_iff)
  qed
qed

lemma self_collision_butlast:
  "self_collision h (butlast xs) \<Longrightarrow> self_collision h xs"
  by (auto simp: self_collision_def list_ex_iff dest: in_set_butlastD)

text \<open>A tick of a reachable session raises nothing: it returns a session, or it does
  not return (the loop of \<^verbatim>\<open>new_food\<close>).\<close>

lemma game_update_raises_nothing:
  assumes "snake g \<noteq> []" "food g \<noteq> None"
  shows "game_update g \<noteq> Some (Inl e)"
proof (cases "running g")
  case False
  then show ?thesis by (simp add: game_update_def)
next
  case True
  from assms obtain head body f where sn: "snake g = head # body" and fd: "food g = Some f"
    by (cases "snake g") auto
  define g1 where "g1 = g\<lparr>snake :=
      (if colliderect (new_head_pos (direction g) head) f
       then new_head_pos (direction g) head # snake g
       else new_head_pos (direction g) head # butlast (snake g))\<rparr>"
  have m: "move g = Inr g1" using sn fd by (simp add: move_def Let_def g1_def)
  have sn1: "snake g1 \<noteq> []" and fd1: "food g1 = Some f"
    using fd by (simp_all add: g1_def)
  from sn1 obtain h1 b1 where s1: "snake g1 = h1 # b1" by (cases "snake g1") auto
  show ?thesis
  proof (cases "colliderect h1 f")
    case False
    then have "check_food g1 = Some (Inr g1)" by (simp add: check_food_def s1 fd1)
    moreover from check_collisions_returns[OF sn1] obtain g' where "check_collisions g1 = Inr g'" ..
    ultimately show ?thesis using True m by (simp add: game_update_def and_then_def)
  next
    case eat: True
    then have cf: "check_food g1 = map_option Inr (new_food (score_point g1))"
      by (simp add: check_food_def s1 fd1)
    show ?thesis
    proof (cases "new_food (score_point g1)")
      case None
      with cf True m show ?thesis by (simp add: game_update_def and_then_def)
    next
      case (Some g2)
      from new_food_frame[OF Some] have "snake g2 \<noteq> []"
        using sn1 by (auto simp: score_point_fields)
      from check_collisions_returns[OF this] obtain g' where "check_collisions g2 = Inr g'" ..
      with cf Some True m show ?thesis by (simp add: game_update_def and_then_def)
    qed
  qed
qed

lemma reachable_tick_raises_nothing:
  assumes "reachable g"
  shows "game_update g \<noteq> Some (Inl e)"
proof -
  from reachable_inv[OF assms] have "snake g \<noteq> []" by (auto simp: session_inv_def)
  moreover from reachable_board_inv[OF assms] have "food g \<noteq> None"
    by (auto simp: board_inv_def split: option.splits)
  ultimately show ?thesis by (rule game_update_raises_nothing)
qed

text \<open>The two tests of \<^verbatim>\<open>check_collisions\<close>, written out.\<close>

lemma head_outside_iff:
  "wall_collision r =
     (rect_x r < 20 \<or> rect_x r + rect_w r > 780 \<or> rect_y r < 20 \<or> rect_y r + rect_h r > 580)"
  by (simp add: wall_collision_def rect_left_def rect_right_def rect_top_def rect_bottom_def
      consts_defs)

lemma head_on_segment_iff:
  "self_collision h segments = (\<exists>segment \<in> set segments. colliderect h segment)"
  by (simp add: self_collision_def list_ex_iff)

lemma aligned_outside_iff:
  assumes "unit_aligned r"
  shows "wall_collision r = (rect_x r < 20 \<or> rect_x r > 760 \<or> rect_y r < 20 \<or> rect_y r > 560)"
  using assms unfolding head_outside_iff by (auto simp: unit_aligned_def UNIT_SIZE_def)

lemma aligned_on_segment_iff:
  assumes "unit_aligned h" "list_all unit_aligned segments"
  shows "self_collision h segments
           = (\<exists>segment \<in> set segments. rect_x segment = rect_x h \<and> rect_y segment = rect_y h)"
proof -
  have "colliderect h s = (rect_x s = rect_x h \<and> rect_y s = rect_y h)"
    if "s \<in> set segments" for s
  proof -
    from that assms(2) have "unit_aligned s" by (simp add: list_all_iff)
    from aligned_collide[OF assms(1) this] show ?thesis by auto
  qed
  then show ?thesis unfolding head_on_segment_iff by blast
qed

subsection \<open>The ghosting pass\<close>

text \<open>The alphas line 286 and \<^verbatim>\<open>set_alpha\<close> give with the first style while the
  buffer fills, and with each style once it holds 5 frames.\<close>

lemma alphas_green_1: "float_trunc (ghost_alpha 20 0 1) = 20"
  by code_simp

lemma alphas_green_2:
  "float_trunc (ghost_alpha 20 0 2) = 20" "float_trunc (ghost_alpha 20 1 2) = 10"
  by code_simp+

lemma alphas_green_3:
  "float_trunc (ghost_alpha 20 0 3) = 20" "float_trunc (ghost_alpha 20 1 3) = 13"
  "float_trunc (ghost_alpha 20 2 3) = 6"
  by code_simp+

lemma alphas_green_4:
  "float_trunc (ghost_alpha 20 0 4) = 20" "float_trunc (ghost_alpha 20 1 4) = 15"
  "float_trunc (ghost_alpha 20 2 4) = 10" "float_trunc (ghost_alpha 20 3 4) = 5"
  by code_simp+

lemma alphas_green_5:
  "float_trunc (ghost_alpha 20 0 5) = 20" "float_trunc (ghost_alpha 20 1 5) = 16"
  "float_trunc (ghost_alpha 20 2 5) = 12" "float_trunc (ghost_alpha 20 3 5) = 8"
  "float_trunc (ghost_alpha 20 4 5) = 3"
  by code_simp+

lemmas alphas_green =
  alphas_green_1 alphas_green_2 alphas_green_3 alphas_green_4 alphas_green_5

lemma alphas_amber_5:
  "float_trunc (ghost_alpha 30 0 5) = 30" "float_trunc (ghost_alpha 30 1 5) = 24"
  "float_trunc (ghost_alpha 30 2 5) = 18" "float_trunc (ghost_alpha 30 3 5) = 12"
  "float_trunc (ghost_alpha 30 4 5) = 5"
  by code_simp+

lemma alphas_blue_5:
  "float_trunc (ghost_alpha 15 0 5) = 15" "float_trunc (ghost_alpha 15 1 5) = 12"
  "float_trunc (ghost_alpha 15 2 5) = 9" "float_trunc (ghost_alpha 15 3 5) = 6"
  "float_trunc (ghost_alpha 15 4 5) = 2"
  by code_simp+

lemma map_pixels_set_alphas: "map pixels (set_alphas ga fs) = map pixels fs"
proof -
  have "map pixels (set_alphas ga fs) = map (pixels \<circ> snd) (enumerate 0 fs)"
    by (simp add: set_alphas_def set_alpha_def Let_def case_prod_beta comp_def)
  also have "\<dots> = map pixels fs" by (simp flip: map_map)
  finally show ?thesis .
qed

lemma nth_set_alphas:
  assumes "i < length fs"
  shows "set_alphas ga fs ! i = set_alpha (ghost_alpha ga (int i) (int (length fs))) (fs ! i)"
  using assms by (simp add: set_alphas_def nth_enumerate_eq)

text \<open>
  The ghosting pass in general: the buffer keeps at most 5 frames, the copy of the current
  frame among them, and drops the oldest first; the kept frames are blitted from the
  oldest to the newest, frame \<open>i\<close> of \<open>n\<close> with the alpha of line 286, and the current
  frame follows, opaque.
\<close>

lemma ghosting_buffer:
  assumes "draw composed g = (g', blits)" and "length (ghosting_frames g) \<le> 5"
  shows "map pixels (ghosting_frames g') =
           (if length (ghosting_frames g) = 5
            then tl (map pixels (ghosting_frames g)) @ [composed]
            else map pixels (ghosting_frames g) @ [composed])"
    and "length (ghosting_frames g') \<le> 5"
    and "blits = ghosting_frames g' @ [\<lparr>pixels = composed, surf_alpha = None\<rparr>]"
    and "\<forall>i < length (ghosting_frames g').
             surf_alpha (ghosting_frames g' ! i) =
               Some (let a = float_trunc (ghost_alpha (ghosting_alpha (current_style g)) (int i)
                                            (int (length (ghosting_frames g'))))
                     in if a > 255 then 255 else if a < 0 then 0 else a)"
proof -
  define frame where "frame = \<lparr>pixels = composed, surf_alpha = None :: int option\<rparr>"
  define kept where "kept = (if length (ghosting_frames g) = 5
      then tl (ghosting_frames g) @ [frame] else ghosting_frames g @ [frame])"
  define ga where "ga = ghosting_alpha (current_style g)"
  have dr: "draw composed g =
      (g\<lparr>random_gen := skip_draws (artifact_draws (current_style g)) (random_gen g),
         ghosting_frames := set_alphas ga kept\<rparr>, set_alphas ga kept @ [frame])"
  proof (cases "length (ghosting_frames g) = 5")
    case True
    then have "ghosting_frames g \<noteq> []" by auto
    then have "tl (ghosting_frames g @ [frame]) = tl (ghosting_frames g) @ [frame]" by simp
    with True show ?thesis
      by (simp add: draw_def Let_def max_ghosting_frames_def kept_def ga_def flip: frame_def)
  next
    case False
    with assms(2) show ?thesis
      by (simp add: draw_def Let_def max_ghosting_frames_def kept_def ga_def flip: frame_def)
  qed
  with assms(1) have gf: "ghosting_frames g' = set_alphas ga kept"
    and bl: "blits = ghosting_frames g' @ [frame]"
    by auto
  have len: "length (ghosting_frames g') = length kept" by (simp add: gf length_set_alphas)
  show "map pixels (ghosting_frames g') =
           (if length (ghosting_frames g) = 5
            then tl (map pixels (ghosting_frames g)) @ [composed]
            else map pixels (ghosting_frames g) @ [composed])"
    by (simp add: gf map_pixels_set_alphas kept_def frame_def map_tl)
  show "length (ghosting_frames g') \<le> 5" unfolding len using assms(2) by (auto simp: kept_def)
  show "blits = ghosting_frames g' @ [\<lparr>pixels = composed, surf_alpha = None\<rparr>]"
    using bl by (simp add: frame_def)
  show "\<forall>i < length (ghosting_frames g').
             surf_alpha (ghosting_frames g' ! i) =
               Some (let a = float_trunc (ghost_alpha (ghosting_alpha (current_style g)) (int i)
                                            (int (length (ghosting_frames g'))))
                     in if a > 255 then 255 else if a < 0 then 0 else a)"
    unfolding len by (simp add: gf nth_set_alphas set_alpha_def Let_def ga_def)
qed

lemma artifact_draws_green: "artifact_draws style_green = 0"
  by (simp add: artifact_draws_def style_green_def)

lemma ga_green: "ghosting_alpha style_green = 20"
  by (simp add: style_green_def)

lemma draw_green:
  assumes "current_style g = style_green"
  shows "draw c g =
     (let frame = \<lparr>pixels = c, surf_alpha = None\<rparr>;
          kept = (if 5 \<le> length (ghosting_frames g) then tl (ghosting_frames g @ [frame])
                  else ghosting_frames g @ [frame])
      in (g\<lparr>ghosting_frames := set_alphas 20 kept\<rparr>, set_alphas 20 kept @ [frame]))"
  by (simp add: draw_def Let_def assms artifact_draws_green ga_green skip_draws_def
      max_ghosting_frames_def)

lemma start_ghost: "start_game 0 (init_fields demo_rng) = Some ghost_start"
  unfolding start_game_def new_food_def Let_def
  by (subst new_food_loop.simps) (simp add: eval_defs ghost_start_def)

lemma style_ghost_start: "current_style ghost_start = style_green"
  by (simp add: ghost_start_def init_fields_def crt_styles_def)

lemma frames_ghost_start: "ghosting_frames ghost_start = []"
  by (simp add: ghost_start_def init_fields_def)

lemma ghost_five_frames:
  "fst (draw 5 (fst (draw 4 (fst (draw 3 (fst (draw 2 (fst (draw 1 ghost_start)))))))))
     = demo_ghost"
proof -
  define g1 where "g1 = ghost_start\<lparr>ghosting_frames := [\<lparr>pixels = 1, surf_alpha = Some 20\<rparr>]\<rparr>"
  define g2 where "g2 = ghost_start\<lparr>ghosting_frames :=
     [\<lparr>pixels = 1, surf_alpha = Some 20\<rparr>, \<lparr>pixels = 2, surf_alpha = Some 10\<rparr>]\<rparr>"
  define g3 where "g3 = ghost_start\<lparr>ghosting_frames :=
     [\<lparr>pixels = 1, surf_alpha = Some 20\<rparr>, \<lparr>pixels = 2, surf_alpha = Some 13\<rparr>,
      \<lparr>pixels = 3, surf_alpha = Some 6\<rparr>]\<rparr>"
  define g4 where "g4 = ghost_start\<lparr>ghosting_frames :=
     [\<lparr>pixels = 1, surf_alpha = Some 20\<rparr>, \<lparr>pixels = 2, surf_alpha = Some 15\<rparr>,
      \<lparr>pixels = 3, surf_alpha = Some 10\<rparr>, \<lparr>pixels = 4, surf_alpha = Some 5\<rparr>]\<rparr>"
  have s: "current_style g1 = style_green" "current_style g2 = style_green"
    "current_style g3 = style_green" "current_style g4 = style_green"
    by (simp_all add: g1_def g2_def g3_def g4_def style_ghost_start)
  have d1: "fst (draw 1 ghost_start) = g1"
    unfolding draw_green[OF style_ghost_start]
    by (simp add: frames_ghost_start Let_def set_alphas_def set_alpha_def alphas_green g1_def)
  have d2: "fst (draw 2 g1) = g2"
    unfolding draw_green[OF s(1)]
    by (simp add: Let_def set_alphas_def set_alpha_def alphas_green g1_def g2_def)
  have d3: "fst (draw 3 g2) = g3"
    unfolding draw_green[OF s(2)]
    by (simp add: Let_def set_alphas_def set_alpha_def alphas_green g2_def g3_def)
  have d4: "fst (draw 4 g3) = g4"
    unfolding draw_green[OF s(3)]
    by (simp add: Let_def set_alphas_def set_alpha_def alphas_green g3_def g4_def)
  have d5: "fst (draw 5 g4) = demo_ghost"
    unfolding draw_green[OF s(4)]
    by (simp add: Let_def set_alphas_def set_alpha_def alphas_green g4_def demo_ghost_def)
  show ?thesis unfolding d1 d2 d3 d4 d5 ..
qed

lemma reachable_demo_ghost: "reachable demo_ghost"
proof -
  have "reachable ghost_start" using start_ghost by (rule reachable_init)
  then have "reachable (fst (draw 5 (fst (draw 4 (fst (draw 3 (fst (draw 2 (fst (draw 1 ghost_start))))))))))"
    by (intro reachable_draw)
  then show ?thesis unfolding ghost_five_frames .
qed

lemma style_demo_ghost: "current_style demo_ghost = style_green"
  by (simp add: demo_ghost_def style_ghost_start)

section \<open>The claims\<close>

subsection \<open>C1: the length of the snake across a tick\<close>

text \<open>
  C1. For a tick executed while the session is running, the snake is as long after the
  tick as before it, unless the new head cell overlaps the food cell: then it is longer
  by exactly one.
\<close>

theorem tick_snake_length:
  assumes "running g" and "snake g = head # body" and "food g = Some f"
    and "game_update g = Some (Inr g')"
  shows "length (snake g') =
           (if colliderect (new_head_pos (direction g) head) f
            then length (snake g) + 1 else length (snake g))"
proof -
  from game_update_running[OF assms(1,4)] assms(2,3)
  have "snake g' = new_head_pos (direction g) head #
          (if colliderect (new_head_pos (direction g) head) f then snake g
           else butlast (snake g))"
    by (simp add: Let_def)
  moreover have "length (butlast (snake g)) + 1 = length (snake g)"
    using assms(2) by simp
  ultimately show ?thesis by simp
qed

theorem tick_snake_length_witness:
  "running demo_start \<and> snake demo_start = Rect 400 300 20 20 # [Rect 380 300 20 20, Rect 360 300 20 20]
   \<and> food demo_start = Some (Rect 420 300 20 20)
   \<and> game_update demo_start = Some (Inr demo_fed)
   \<and> length (snake demo_fed) = length (snake demo_start) + 1"
  using tick_snake_length[of demo_start "Rect 400 300 20 20"
      "[Rect 380 300 20 20, Rect 360 300 20 20]" "Rect 420 300 20 20" demo_fed]
    tick_demo_start
  by (simp add: eval_defs)

subsection \<open>C5: where new_food puts the food\<close>

text \<open>
  C5. When \<^verbatim>\<open>new_food\<close> returns, the food is a unit square on the grid, inside the
  playable area, and it overlaps no segment of the snake; the snake is the one the call
  was given.
\<close>

theorem new_food_free_cell:
  assumes "new_food g = Some g'"
  shows "snake g' = snake g \<and>
         (\<exists>f. food g' = Some f \<and> grid_cell f
              \<and> (\<forall>segment \<in> set (snake g'). \<not> colliderect segment f))"
proof -
  from new_food_frame[OF assms] obtain r f where
    g': "g' = g\<lparr>random_gen := r, food := Some f\<rparr>" and ok: "food_cell_ok 1 38 1 28 f"
    and free: "\<not> food_on_snake g'" by blast
  from free have "\<forall>segment \<in> set (snake g'). \<not> colliderect segment f"
    by (simp add: food_on_snake_def g' list_ex_iff)
  moreover have "grid_cell f" using ok by (rule food_cell_ok_grid)
  moreover have "snake g' = snake g" "food g' = Some f" by (simp_all add: g')
  ultimately show ?thesis by blast
qed

theorem new_food_free_cell_witness:
  "new_food demo_start
     = Some (demo_start\<lparr>random_gen := skip_draws 4 demo_rng, food := Some (Rect 540 60 20 20)\<rparr>)
   \<and> grid_cell (Rect 540 60 20 20)
   \<and> \<not> list_ex (\<lambda>segment. colliderect segment (Rect 540 60 20 20)) (snake demo_start)"
  using new_food_free_cell[OF new_food_demo_start] new_food_demo_start
  by (simp add: demo_start_def list_ex_iff)

subsection \<open>C6: collisions end the session\<close>

text \<open>
  C6. After a tick of a running session the head is the new head cell, and the session
  is still running exactly when that cell lies within the playable bounds, from 20 to
  780 across and from 20 to 580 down, and overlaps no other segment of the snake. On a
  well-formed board, as every reachable one is, a tick whose new head cell is outside
  the bounds or is the cell of a segment that stays returns with \<open>running\<close> false,
  and a tick whose new head cell is neither leaves the session running. In particular
  a head in the leftmost playable column that moves left ends the session.
\<close>

theorem collision_stops_session:
  assumes "running g" and "snake g = head # body"
  shows "(\<forall>g'. game_update g = Some (Inr g') \<longrightarrow>
            hd (snake g') = new_head_pos (direction g) head
          \<and> running g' =
              (20 \<le> rect_x (hd (snake g'))
               \<and> rect_x (hd (snake g')) + rect_w (hd (snake g')) \<le> 780
               \<and> 20 \<le> rect_y (hd (snake g'))
               \<and> rect_y (hd (snake g')) + rect_h (hd (snake g')) \<le> 580
               \<and> (\<forall>segment \<in> set (tl (snake g')).
                     \<not> colliderect (hd (snake g')) segment)))
       \<and> (board_inv g
            \<and> (rect_x (new_head_pos (direction g) head) < 20
                \<or> rect_x (new_head_pos (direction g) head) > 760
                \<or> rect_y (new_head_pos (direction g) head) < 20
                \<or> rect_y (new_head_pos (direction g) head) > 560
                \<or> (\<exists>segment \<in> set (butlast (snake g)).
                      rect_x segment = rect_x (new_head_pos (direction g) head)
                      \<and> rect_y segment = rect_y (new_head_pos (direction g) head)))
          \<longrightarrow> (\<exists>g'. game_update g = Some (Inr g') \<and> \<not> running g'))
       \<and> (board_inv g
            \<and> 20 \<le> rect_x (new_head_pos (direction g) head)
            \<and> rect_x (new_head_pos (direction g) head) \<le> 760
            \<and> 20 \<le> rect_y (new_head_pos (direction g) head)
            \<and> rect_y (new_head_pos (direction g) head) \<le> 560
            \<and> (\<forall>segment \<in> set (butlast (snake g)).
                  \<not> (rect_x segment = rect_x (new_head_pos (direction g) head)
                     \<and> rect_y segment = rect_y (new_head_pos (direction g) head)))
          \<longrightarrow> (\<forall>g'. game_update g = Some (Inr g') \<longrightarrow> running g'))
       \<and> (board_inv g \<and> direction g = ''L'' \<and> rect_left head = BORDER_SIZE
          \<longrightarrow> (\<exists>g'. game_update g = Some (Inr g') \<and> \<not> running g'))"
proof -
  define nh where "nh = new_head_pos (direction g) head"
  have after: "hd (snake g') = nh
      \<and> running g' =
              (20 \<le> rect_x (hd (snake g'))
               \<and> rect_x (hd (snake g')) + rect_w (hd (snake g')) \<le> 780
               \<and> 20 \<le> rect_y (hd (snake g'))
               \<and> rect_y (hd (snake g')) + rect_h (hd (snake g')) \<le> 580
               \<and> (\<forall>segment \<in> set (tl (snake g')).
                     \<not> colliderect (hd (snake g')) segment))"
    if "game_update g = Some (Inr g')" for g'
  proof -
    from game_update_running[OF assms(1) that] assms(2) obtain body' where
      "snake g' = nh # body'"
      "running g' = (\<not> (wall_collision nh \<or> self_collision nh body'))"
      by (auto simp: Let_def nh_def)
    then show ?thesis unfolding head_outside_iff head_on_segment_iff by auto
  qed
  have aligned: "unit_aligned nh" "list_all unit_aligned (butlast (snake g))"
    "list_all unit_aligned (snake g)" if "board_inv g"
  proof -
    from that have al: "list_all unit_aligned (snake g)" by (simp add: board_inv_def)
    with assms(2) have "unit_aligned head" by simp
    then show "unit_aligned nh" unfolding nh_def by (rule new_head_pos_aligned)
    show "list_all unit_aligned (butlast (snake g))"
      using al by (auto simp: list_all_iff dest: in_set_butlastD)
    show "list_all unit_aligned (snake g)" by (rule al)
  qed
  have stops: "\<exists>g'. game_update g = Some (Inr g') \<and> \<not> running g'"
    if inv: "board_inv g" and hit: "wall_collision nh \<or> self_collision nh (butlast (snake g))"
  proof -
    from inv obtain f where fd: "food g = Some f"
      by (auto simp: board_inv_def split: option.splits)
    from hit have "wall_collision nh \<or> self_collision nh (snake g)"
      by (blast intro: self_collision_butlast)
    then have ne: "\<not> colliderect (new_head_pos (direction g) head) f"
      unfolding nh_def by (rule collision_not_eaten[OF inv assms(2) fd])
    from game_update_returns[OF assms fd ne] obtain g' where
      upd: "game_update g = Some (Inr g')" ..
    from game_update_running[OF assms(1) upd] assms(2) fd ne
    have "running g' = (\<not> (wall_collision nh \<or> self_collision nh (butlast (snake g))))"
      by (simp add: Let_def nh_def)
    with hit upd show ?thesis by blast
  qed
  have goes_on: "running g'"
    if inv: "board_inv g" and free: "\<not> wall_collision nh"
      "\<not> self_collision nh (butlast (snake g))"
      and upd: "game_update g = Some (Inr g')" for g'
  proof -
    from inv obtain f where fd: "food g = Some f"
      by (auto simp: board_inv_def split: option.splits)
    from game_update_running[OF assms(1) upd] assms(2) fd
    have run': "running g' = (\<not> (wall_collision nh \<or> self_collision nh
        (if colliderect nh f then snake g else butlast (snake g))))"
      by (simp add: Let_def nh_def)
    show ?thesis
    proof (cases "colliderect nh f")
      case True
      have "\<not> (wall_collision nh \<or> self_collision nh (snake g))"
        using collision_not_eaten[OF inv assms(2) fd] True unfolding nh_def by blast
      with run' True show ?thesis by simp
    next
      case False
      with run' free show ?thesis by simp
    qed
  qed
  have left: "wall_collision nh" if "direction g = ''L''" "rect_left head = BORDER_SIZE"
    using that by (simp add: nh_def new_head_pos_def wall_collision_def rect_move_def Rect_def
        rect_left_def consts_defs)
  have c2: "\<exists>g'. game_update g = Some (Inr g') \<and> \<not> running g'"
    if "board_inv g" and "rect_x nh < 20 \<or> rect_x nh > 760 \<or> rect_y nh < 20 \<or> rect_y nh > 560
        \<or> (\<exists>segment \<in> set (butlast (snake g)).
              rect_x segment = rect_x nh \<and> rect_y segment = rect_y nh)"
  proof -
    from that(2) have "wall_collision nh \<or> self_collision nh (butlast (snake g))"
      unfolding aligned_outside_iff[OF aligned(1)[OF that(1)]]
        aligned_on_segment_iff[OF aligned(1,2)[OF that(1)]] by blast
    with that(1) show ?thesis by (rule stops)
  qed
  have c3: "running g'"
    if "board_inv g" and "20 \<le> rect_x nh" "rect_x nh \<le> 760" "20 \<le> rect_y nh" "rect_y nh \<le> 560"
      and "\<forall>segment \<in> set (butlast (snake g)).
              \<not> (rect_x segment = rect_x nh \<and> rect_y segment = rect_y nh)"
      and "game_update g = Some (Inr g')" for g'
  proof -
    have "\<not> wall_collision nh"
      unfolding aligned_outside_iff[OF aligned(1)[OF that(1)]] using that(2-5) by simp
    moreover have "\<not> self_collision nh (butlast (snake g))"
      unfolding aligned_on_segment_iff[OF aligned(1,2)[OF that(1)]] using that(6) by blast
    ultimately show ?thesis using that(1,7) goes_on by blast
  qed
  have c4: "\<exists>g'. game_update g = Some (Inr g') \<and> \<not> running g'"
    if "board_inv g" "direction g = ''L''" "rect_left head = BORDER_SIZE"
    using stops[OF that(1)] left[OF that(2,3)] by blast
  from after c2 c3 c4 show ?thesis unfolding nh_def by blast
qed

theorem collision_stops_session_witness:
  "reachable demo_wall
   \<and> running demo_wall \<and> snake demo_wall = Rect 20 280 20 20 # [Rect 40 280 20 20, Rect 60 280 20 20]
   \<and> board_inv demo_wall
   \<and> direction demo_wall = ''L'' \<and> rect_left (Rect 20 280 20 20) = BORDER_SIZE
   \<and> new_head_pos (direction demo_wall) (Rect 20 280 20 20) = Rect 0 280 20 20
   \<and> game_update demo_wall = Some (Inr demo_over)
   \<and> \<not> running demo_over"
proof -
  have r: "running demo_wall" by (simp add: eval_defs)
  have s: "snake demo_wall = Rect 20 280 20 20 # [Rect 40 280 20 20, Rect 60 280 20 20]"
    by (simp add: eval_defs)
  have b: "board_inv demo_wall"
    by (simp add: board_inv_def unit_aligned_def grid_cell_def eval_defs)
  have d: "direction demo_wall = ''L''" "rect_left (Rect 20 280 20 20) = BORDER_SIZE"
    by (simp_all add: eval_defs)
  have n: "new_head_pos (direction demo_wall) (Rect 20 280 20 20) = Rect 0 280 20 20"
    by (simp add: eval_defs)
  from collision_stops_session[OF r s] b d
  have "\<exists>g'. game_update demo_wall = Some (Inr g') \<and> \<not> running g'" by blast
  then have "\<not> running demo_over" by (simp add: tick_demo_wall)
  with r s b d n tick_demo_wall reachable_demo_wall show ?thesis by blast
qed

subsection \<open>C7: the rotation of the styles\<close>

text \<open>
  C7. A tick raises the score by one or leaves it. The style index advances by one,
  cyclically over the three styles, on the tick that raises the score to a positive
  multiple of 5, and stays on every other tick: reaching 5 takes it from 0 to 1,
  reaching 10 from 1 to 2, reaching 15 from 2 back to 0.
\<close>

theorem style_rotation:
  assumes "running g" and "game_update g = Some (Inr g')"
  shows "(score g' = score g \<or> score g' = score g + 1)
       \<and> (score g' = score g + 1 \<and> 0 < score g' \<and> score g' mod 5 = 0
            \<longrightarrow> current_style_index g' = (current_style_index g + 1) mod 3)
       \<and> (\<not> (score g' = score g + 1 \<and> 0 < score g' \<and> score g' mod 5 = 0)
            \<longrightarrow> current_style_index g' = current_style_index g)
       \<and> (score g = 4 \<and> score g' = 5 \<and> current_style_index g = 0
            \<longrightarrow> current_style_index g' = 1)
       \<and> (score g = 9 \<and> score g' = 10 \<and> current_style_index g = 1
            \<longrightarrow> current_style_index g' = 2)
       \<and> (score g = 14 \<and> score g' = 15 \<and> current_style_index g = 2
            \<longrightarrow> current_style_index g' = 0)"
proof -
  from game_update_running[OF assms] obtain eaten where
    sc: "score g' = (if eaten then score g + 1 else score g)" and
    ix: "current_style_index g' =
           (if eaten \<and> 0 < score g + 1 \<and> (score g + 1) mod 5 = 0
            then (current_style_index g + 1) mod 3 else current_style_index g)"
    by (auto simp: Let_def)
  show ?thesis
  proof (cases eaten)
    case True
    with sc ix show ?thesis by simp
  next
    case False
    with sc ix show ?thesis by simp
  qed
qed

theorem style_rotation_witness:
  "running demo_four \<and> game_update demo_four = Some (Inr demo_five)
   \<and> score demo_four = 4 \<and> score demo_five = 5
   \<and> current_style_index demo_four = 0 \<and> current_style_index demo_five = 1"
  using style_rotation[of demo_four demo_five] tick_demo_four
  by (simp add: eval_defs)

subsection \<open>C8: a request for the reverse direction\<close>

text \<open>
  C8. A key press that asks for the exact reverse of the stored direction leaves the
  direction, and the whole session, as it was, and raises nothing. This holds of every
  session, so of every running one.
\<close>

theorem reverse_direction_ignored:
  "(direction g = ''R'' \<longrightarrow>
      handle_event now (rg, g) (KEYDOWN K_LEFT) = Some (Inr (rg, g)))
   \<and> (direction g = ''L'' \<longrightarrow>
      handle_event now (rg, g) (KEYDOWN K_RIGHT) = Some (Inr (rg, g)))
   \<and> (direction g = ''D'' \<longrightarrow>
      handle_event now (rg, g) (KEYDOWN K_UP) = Some (Inr (rg, g)))
   \<and> (direction g = ''U'' \<longrightarrow>
      handle_event now (rg, g) (KEYDOWN K_DOWN) = Some (Inr (rg, g)))"
  by simp

theorem reverse_direction_ignored_witness:
  "running demo_start \<and> direction demo_start = ''R''
   \<and> handle_event 0 (True, demo_start) (KEYDOWN K_LEFT) = Some (Inr (True, demo_start))"
  using reverse_direction_ignored[of demo_start 0 True]
  by (simp add: eval_defs)

subsection \<open>C10: segments and score\<close>

text \<open>
  C10. In every reachable session the snake has as many segments as the score plus 3.
\<close>

theorem reachable_snake_length:
  assumes "reachable g"
  shows "int (length (snake g)) = score g + 3"
  using reachable_inv[OF assms] by (simp add: session_inv_def)

theorem reachable_snake_length_witness:
  "reachable demo_fed \<and> int (length (snake demo_fed)) = score demo_fed + 3"
proof -
  have "reachable demo_start" using start_demo by (rule reachable_init)
  moreover have "handle_event 0 (True, demo_start) GAME_UPDATE = Some (Inr (True, demo_fed))"
    by (simp add: tick_demo_start and_then_def)
  ultimately have r: "reachable demo_fed" by (rule reachable_event)
  from reachable_snake_length[OF r] r show ?thesis by simp
qed

subsection \<open>C3: what a restart keeps\<close>

text \<open>
  C3, amended. A restart from a session that is over keeps the high score. It sets the
  score and the style index back to 0 (the first style), and it renews the snake, the
  food (a free cell of the grid), the direction, the running flag, the start time and
  the frame history.
\<close>

theorem restart_resets:
  assumes "\<not> running g"
    and "handle_event now (rg, g) (KEYDOWN K_SPACE) = Some (Inr (rg', g'))"
  shows "high_score g' = high_score g
       \<and> score g' = 0 \<and> current_style_index g' = 0 \<and> current_style g' = crt_styles ! 0
       \<and> snake g' = start_snake \<and> direction g' = ''R'' \<and> running g'
       \<and> game_start_time g' = now \<and> ghosting_frames g' = []
       \<and> (\<exists>f. food g' = Some f \<and> grid_cell f
              \<and> (\<forall>segment \<in> set (snake g'). \<not> colliderect segment f))"
proof -
  from assms have "start_game now g = Some g'" by auto
  from start_game_Some[OF this] obtain r f where
    g': "g' = g\<lparr>random_gen := r, snake := start_snake, food := Some f,
             direction := ''R'', running := True, score := 0, game_start_time := now,
             ghosting_frames := [], current_style_index := 0,
             current_style := crt_styles ! 0, update_timer := DELAY_MS\<rparr>"
    and ok: "food_cell_ok 1 38 1 28 f"
    and free: "\<not> list_ex (\<lambda>segment. colliderect segment f) start_snake" by blast
  have "grid_cell f" using ok by (rule food_cell_ok_grid)
  moreover have "\<forall>segment \<in> set (snake g'). \<not> colliderect segment f"
    using free by (simp add: g' list_ex_iff)
  moreover have "food g' = Some f" by (simp add: g')
  ultimately have "\<exists>f. food g' = Some f \<and> grid_cell f
              \<and> (\<forall>segment \<in> set (snake g'). \<not> colliderect segment f)" by blast
  then show ?thesis by (simp add: g')
qed

theorem restart_resets_witness:
  "\<not> running demo_over7
   \<and> handle_event 5 (True, demo_over7) (KEYDOWN K_SPACE) = Some (Inr (True, demo_restart))
   \<and> high_score demo_over7 = 9 \<and> high_score demo_restart = 9
   \<and> score demo_restart = 0 \<and> current_style_index demo_restart = 0"
  using restart_resets[OF _ restart_demo] restart_demo
  by (simp add: eval_defs)

text \<open>The score and the style index do not survive the restart: 7 and 1 become 0.\<close>

theorem restart_keeps_score_counterexample:
  "\<not> running demo_over7
   \<and> handle_event 5 (True, demo_over7) (KEYDOWN K_SPACE) = Some (Inr (True, demo_restart))
   \<and> score demo_over7 = 7 \<and> score demo_restart = 0
   \<and> current_style_index demo_over7 = 1 \<and> current_style_index demo_restart = 0"
  using restart_demo by (simp add: eval_defs)

subsection \<open>C4: inputs when the session is over\<close>

text \<open>
  C4, amended. When the session is over, a tick leaves the session as it is, and so does
  every event that is neither an arrow key nor the restart key. An arrow key changes at
  most the stored direction: it stores the direction it asks for, unless that is the
  reverse of the stored one, and then it changes nothing; snake, food, score, high score
  and the running flag stay. No event but the restart key leads to a running session,
  and a restart that returns does.
\<close>

theorem game_over_inputs:
  assumes "\<not> running g"
  shows "handle_event now (rg, g) GAME_UPDATE = Some (Inr (rg, g))
       \<and> handle_event now (rg, g) (KEYDOWN K_LEFT)
           = Some (Inr (rg, if direction g = ''R'' then g else g\<lparr>direction := ''L''\<rparr>))
       \<and> handle_event now (rg, g) (KEYDOWN K_RIGHT)
           = Some (Inr (rg, if direction g = ''L'' then g else g\<lparr>direction := ''R''\<rparr>))
       \<and> handle_event now (rg, g) (KEYDOWN K_UP)
           = Some (Inr (rg, if direction g = ''D'' then g else g\<lparr>direction := ''U''\<rparr>))
       \<and> handle_event now (rg, g) (KEYDOWN K_DOWN)
           = Some (Inr (rg, if direction g = ''U'' then g else g\<lparr>direction := ''D''\<rparr>))
       \<and> (\<forall>e. e \<notin> {KEYDOWN K_LEFT, KEYDOWN K_RIGHT, KEYDOWN K_UP, KEYDOWN K_DOWN,
                     KEYDOWN K_SPACE}
              \<longrightarrow> (\<exists>rg'. handle_event now (rg, g) e = Some (Inr (rg', g))))
       \<and> (\<forall>e. e \<noteq> KEYDOWN K_SPACE
              \<longrightarrow> (\<exists>rg' d. handle_event now (rg, g) e = Some (Inr (rg', g\<lparr>direction := d\<rparr>))))
       \<and> (\<forall>e rg' g'. e \<noteq> KEYDOWN K_SPACE \<and> handle_event now (rg, g) e = Some (Inr (rg', g'))
              \<longrightarrow> snake g' = snake g \<and> food g' = food g \<and> score g' = score g
                  \<and> high_score g' = high_score g \<and> \<not> running g')
       \<and> (\<forall>e rg' g'. handle_event now (rg, g) e = Some (Inr (rg', g')) \<and> running g'
              \<longrightarrow> e = KEYDOWN K_SPACE)
       \<and> (\<forall>rg' g'. handle_event now (rg, g) (KEYDOWN K_SPACE) = Some (Inr (rg', g'))
              \<longrightarrow> running g')"
proof -
  have tick: "handle_event now (rg, g) GAME_UPDATE = Some (Inr (rg, g))"
    using assms by (simp add: game_update_def and_then_def)
  have arrows:
    "handle_event now (rg, g) (KEYDOWN K_LEFT)
       = Some (Inr (rg, if direction g = ''R'' then g else g\<lparr>direction := ''L''\<rparr>))"
    "handle_event now (rg, g) (KEYDOWN K_RIGHT)
       = Some (Inr (rg, if direction g = ''L'' then g else g\<lparr>direction := ''R''\<rparr>))"
    "handle_event now (rg, g) (KEYDOWN K_UP)
       = Some (Inr (rg, if direction g = ''D'' then g else g\<lparr>direction := ''U''\<rparr>))"
    "handle_event now (rg, g) (KEYDOWN K_DOWN)
       = Some (Inr (rg, if direction g = ''U'' then g else g\<lparr>direction := ''D''\<rparr>))"
    by simp_all
  have same: "\<exists>rg'. handle_event now (rg, g) e = Some (Inr (rg', g))"
    if "e \<notin> {KEYDOWN K_LEFT, KEYDOWN K_RIGHT, KEYDOWN K_UP, KEYDOWN K_DOWN, KEYDOWN K_SPACE}"
    for e
  proof (cases e)
    case QUIT
    have "handle_event now (rg, g) QUIT = Some (Inr (False, g))" by simp
    then show ?thesis unfolding QUIT by blast
  next
    case (KEYDOWN k)
    with that show ?thesis by (cases k) simp_all
  next
    case GAME_UPDATE
    show ?thesis unfolding GAME_UPDATE using tick by blast
  next
    case OTHER_EVENT
    have "handle_event now (rg, g) OTHER_EVENT = Some (Inr (rg, g))" by simp
    then show ?thesis unfolding OTHER_EVENT by blast
  qed
  have self: "g\<lparr>direction := direction g\<rparr> = g" by simp
  have dir: "\<exists>rg' d. handle_event now (rg, g) e = Some (Inr (rg', g\<lparr>direction := d\<rparr>))"
    if "e \<noteq> KEYDOWN K_SPACE" for e
  proof (cases "e \<in> {KEYDOWN K_LEFT, KEYDOWN K_RIGHT, KEYDOWN K_UP, KEYDOWN K_DOWN}")
    case True
    then consider "e = KEYDOWN K_LEFT" | "e = KEYDOWN K_RIGHT" | "e = KEYDOWN K_UP"
      | "e = KEYDOWN K_DOWN" by blast
    then show ?thesis
    proof cases
      case 1
      show ?thesis unfolding 1
        by (cases "direction g = ''R''") (simp_all, metis self, blast)
    next
      case 2
      show ?thesis unfolding 2
        by (cases "direction g = ''L''") (simp_all, metis self, blast)
    next
      case 3
      show ?thesis unfolding 3
        by (cases "direction g = ''D''") (simp_all, metis self, blast)
    next
      case 4
      show ?thesis unfolding 4
        by (cases "direction g = ''U''") (simp_all, metis self, blast)
    qed
  next
    case False
    with that same[of e] obtain rg' where "handle_event now (rg, g) e = Some (Inr (rg', g))"
      by auto
    then have "handle_event now (rg, g) e = Some (Inr (rg', g\<lparr>direction := direction g\<rparr>))"
      by simp
    then show ?thesis by blast
  qed
  have frame: "snake g' = snake g \<and> food g' = food g \<and> score g' = score g
                  \<and> high_score g' = high_score g \<and> \<not> running g'"
    if "e \<noteq> KEYDOWN K_SPACE" "handle_event now (rg, g) e = Some (Inr (rg', g'))" for e rg' g'
  proof -
    from dir[OF that(1)] that(2) obtain d where "g' = g\<lparr>direction := d\<rparr>" by auto
    with assms show ?thesis by simp
  qed
  have only: "e = KEYDOWN K_SPACE"
    if "handle_event now (rg, g) e = Some (Inr (rg', g'))" "running g'" for e rg' g'
  proof (rule ccontr)
    assume "e \<noteq> KEYDOWN K_SPACE"
    from frame[OF this that(1)] that(2) show False by simp
  qed
  have restart: "running g'"
    if "handle_event now (rg, g) (KEYDOWN K_SPACE) = Some (Inr (rg', g'))" for rg' g'
  proof -
    from that assms have "start_game now g = Some g'" by auto
    from start_game_Some[OF this] show ?thesis by auto
  qed
  have p1: "\<forall>e. e \<notin> {KEYDOWN K_LEFT, KEYDOWN K_RIGHT, KEYDOWN K_UP, KEYDOWN K_DOWN,
                     KEYDOWN K_SPACE}
              \<longrightarrow> (\<exists>rg'. handle_event now (rg, g) e = Some (Inr (rg', g)))"
    using same by blast
  have p2: "\<forall>e. e \<noteq> KEYDOWN K_SPACE
              \<longrightarrow> (\<exists>rg' d. handle_event now (rg, g) e = Some (Inr (rg', g\<lparr>direction := d\<rparr>)))"
    using dir by blast
  have p3: "\<forall>e rg' g'. e \<noteq> KEYDOWN K_SPACE \<and> handle_event now (rg, g) e = Some (Inr (rg', g'))
              \<longrightarrow> snake g' = snake g \<and> food g' = food g \<and> score g' = score g
                  \<and> high_score g' = high_score g \<and> \<not> running g'"
    using frame by blast
  have p4: "\<forall>e rg' g'. handle_event now (rg, g) e = Some (Inr (rg', g')) \<and> running g'
              \<longrightarrow> e = KEYDOWN K_SPACE"
    using only by blast
  have p5: "\<forall>rg' g'. handle_event now (rg, g) (KEYDOWN K_SPACE) = Some (Inr (rg', g'))
              \<longrightarrow> running g'"
    using restart by blast
  show ?thesis
    apply (intro conjI)
    apply (rule tick)
    apply (rule arrows(1))
    apply (rule arrows(2))
    apply (rule arrows(3))
    apply (rule arrows(4))
    apply (rule p1)
    apply (rule p2)
    apply (rule p3)
    apply (rule p4)
    apply (rule p5)
    done
qed

theorem game_over_inputs_witness:
  "\<not> running demo_over \<and> direction demo_over = ''L''
   \<and> handle_event 0 (True, demo_over) GAME_UPDATE = Some (Inr (True, demo_over))
   \<and> handle_event 0 (True, demo_over) (KEYDOWN K_UP)
       = Some (Inr (True, demo_over\<lparr>direction := ''U''\<rparr>))
   \<and> handle_event 0 (True, demo_over) (KEYDOWN K_DOWN)
       = Some (Inr (True, demo_over\<lparr>direction := ''D''\<rparr>))
   \<and> handle_event 0 (True, demo_over) (KEYDOWN K_LEFT)
       = Some (Inr (True, demo_over\<lparr>direction := ''L''\<rparr>))
   \<and> handle_event 0 (True, demo_over) (KEYDOWN K_RIGHT) = Some (Inr (True, demo_over))"
proof -
  have h: "\<not> running demo_over" by (simp add: eval_defs)
  have d: "direction demo_over = ''L''" by (simp add: eval_defs)
  note t = game_over_inputs[OF h, of 0 True]
  note tick = t[THEN conjunct1]
  note left = t[THEN conjunct2, THEN conjunct1]
  note right = t[THEN conjunct2, THEN conjunct2, THEN conjunct1]
  note up = t[THEN conjunct2, THEN conjunct2, THEN conjunct2, THEN conjunct1]
  note down = t[THEN conjunct2, THEN conjunct2, THEN conjunct2, THEN conjunct2, THEN conjunct1]
  from up d have u: "handle_event 0 (True, demo_over) (KEYDOWN K_UP)
       = Some (Inr (True, demo_over\<lparr>direction := ''U''\<rparr>))" by simp
  from down d have dn: "handle_event 0 (True, demo_over) (KEYDOWN K_DOWN)
       = Some (Inr (True, demo_over\<lparr>direction := ''D''\<rparr>))" by simp
  from left d have lf: "handle_event 0 (True, demo_over) (KEYDOWN K_LEFT)
       = Some (Inr (True, demo_over\<lparr>direction := ''L''\<rparr>))" by simp
  from right d have rt: "handle_event 0 (True, demo_over) (KEYDOWN K_RIGHT)
       = Some (Inr (True, demo_over))" by simp
  show ?thesis
    apply (intro conjI)
    apply (rule h)
    apply (rule d)
    apply (rule tick)
    apply (rule u)
    apply (rule dn)
    apply (rule lf)
    apply (rule rt)
    done
qed

text \<open>An arrow key does change the direction of a session that is over: here the one
  that ended at the left wall.\<close>

theorem game_over_direction_counterexample:
  "reachable demo_over \<and> \<not> running demo_over \<and> direction demo_over = ''L''
   \<and> handle_event 0 (True, demo_over) (KEYDOWN K_UP)
       = Some (Inr (True, demo_over\<lparr>direction := ''U''\<rparr>))
   \<and> direction (demo_over\<lparr>direction := ''U''\<rparr>) \<noteq> direction demo_over"
  using reachable_demo_over by (simp add: eval_defs)

subsection \<open>C2: the ghosting pass\<close>

text \<open>
  C2. The session reached by drawing the frames 1 to 5 after the constructor keeps these
  five frames, under the first style, whose ghosting alpha is 20. Drawing frame 6 drops
  frame 1 and blits the kept frames from the oldest to the newest, 2 to 6, and then the
  current frame, opaque, on top. The alphas of the kept frames are 20, 16, 12, 8 and 3:
  the oldest kept frame is drawn with the full ghosting alpha of the style, the newest
  with the least. The opacity of a kept frame grows with its age; it does not fall
  with it.
\<close>

theorem ghosting_oldest_brightest:
  "ghosting_alpha (current_style demo_ghost) = 20
   \<and> map pixels (ghosting_frames demo_ghost) = [1, 2, 3, 4, 5]
   \<and> map pixels (snd (draw 6 demo_ghost)) = [2, 3, 4, 5, 6, 6]
   \<and> map surf_alpha (snd (draw 6 demo_ghost))
       = [Some 20, Some 16, Some 12, Some 8, Some 3, None]"
  unfolding draw_green[OF style_demo_ghost] style_demo_ghost ga_green
  by (simp add: Let_def set_alphas_def set_alpha_def alphas_green demo_ghost_def)

end
